theory Spec2Isabelle
  imports Main
begin

section \<open>JavaScript values shared by the modules\<close>

text \<open>
  An Error object, with the properties the library reads and writes: \<open>name\<close> and
  \<open>message\<close> (read by \<open>toString\<close>), \<open>stepName\<close> (written by \<open>nameError\<close>) and
  \<open>tag\<close> (read by \<open>reportError\<close>). \<open>None\<close> stands for a property that is absent
  or falsy.
\<close>

record js_error =
  err_name :: string
  message :: string
  stepName :: "string option"
  tag :: "string option"

definition new_Error :: "string \<Rightarrow> js_error" where
  "new_Error msg = \<lparr>err_name = ''Error'', message = msg, stepName = None, tag = None\<rparr>"

definition new_TypeError :: "string \<Rightarrow> js_error" where
  "new_TypeError msg = \<lparr>err_name = ''TypeError'', message = msg, stepName = None, tag = None\<rparr>"

text \<open>\<open>Error.prototype.toString\<close>: the name, a colon and the message, or whichever is not empty.\<close>

definition toString :: "js_error \<Rightarrow> string" where
  "toString e =
     (if err_name e = [] then message e
      else if message e = [] then err_name e
      else err_name e @ '': '' @ message e)"

text \<open>
  What calling a caller-supplied function (a source, a synchronizer, a step) does: it
  throws, or it returns a value. The value returned is a Promise, given by the state it
  settles in (\<open>Pending\<close>: it never settles), or something that is not a Promise
  (falsy, or without a \<open>then\<close> property).
\<close>

datatype 'a promise = Fulfilled 'a | Rejected js_error | Pending

datatype ('n, 'a) returned = NonPromise 'n | APromise "'a promise"

datatype ('n, 'a) outcome = Throws js_error | Returns "('n, 'a) returned"

section \<open>Decimal numerals and ordinals\<close>

fun string_of_nat :: "nat \<Rightarrow> string" where
  "string_of_nat n =
     (if n < 10 then [''0123456789'' ! n]
      else string_of_nat (n div 10) @ [''0123456789'' ! (n mod 10)])"

declare string_of_nat.simps [simp del]

text \<open>
  Modelled from the spec: the npm dependency \<open>ordinal\<close> is not part of the repository.
  Step \<open>n\<close> is rendered with the English ordinal suffix rules: 1st, 2nd, 3rd, 4th,
  11th, 12th, 13th, 21st.
\<close>

definition indicator :: "nat \<Rightarrow> string" where
  "indicator i =
     (let cent = i mod 100; dec = i mod 10 in
      if 10 \<le> cent \<and> cent \<le> 20 then ''th''
      else if dec = 1 then ''st''
      else if dec = 2 then ''nd''
      else if dec = 3 then ''rd''
      else ''th'')"

definition ordinal :: "int \<Rightarrow> string" where
  "ordinal i = (if i < 0 then ''-'' else []) @ string_of_nat (nat \<bar>i\<bar>) @ indicator (nat \<bar>i\<bar>)"

section \<open>transaction.js\<close>

subsection \<open>Data\<close>

text \<open>
  The context is an object: a map from property names to values. A step is called with
  the context; what it does depends on the outside world at the time of the call, the
  parameter \<open>'w\<close>. A Promise returned by a step resolves with a value for which
  \<open>typeof\<close> is \<open>'object'\<close> (given by its own enumerable properties; \<open>null\<close> has none)
  or with any other value.
\<close>

type_synonym 'v ctx = "string \<rightharpoonup> 'v"

datatype 'v resolution = TypeofObject "'v ctx" | TypeofOther

type_synonym ('w, 'v) step = "'w \<Rightarrow> 'v ctx \<Rightarrow> ('v, 'v resolution) outcome"

text \<open>The values \<open>this.currentStep\<close> takes.\<close>

datatype js_number = Undefined | NaN | Num int

text \<open>
  The calls the transaction makes to the functions it was given, in order. Callbacks
  are known by a name of type \<open>'c\<close>.
\<close>

datatype ('c, 'v) event =
    StepCalled nat "'v ctx"
  | OnSuccessCalled 'c
  | OnResumeCalled 'c
  | OnErrorCalled 'c js_error
  | OnSpecificErrorCalled 'c js_error
  | ConsoleWarn string

text \<open>
  A regular expression is given by the strings in which \<open>String.prototype.match\<close> finds
  a match. The callback of \<open>onSuccess\<close> may throw; the other callbacks are taken to
  return normally, without calling back into the transaction.
\<close>

type_synonym regexp = "string \<Rightarrow> bool"

record ('w, 'c, 'v) transaction =
  steps :: "('w, 'v) step list"
  callbacks_onSpecificErrors :: "('c \<times> regexp) list"
  callbacks_onSuccess :: "('c \<times> ('w \<Rightarrow> js_error option)) option"
  callbacks_onResume :: "'c option"
  callbacks_onError :: "'c option"
  currentStep :: js_number
  this_context :: "'v ctx"
  resumedBeforeNextTick :: bool
  trace :: "('c, 'v) event list"

subsection \<open>The constructor\<close>

datatype ('w, 'v) element = Function "('w, 'v) step" | NotAFunction 'v

datatype ('w, 'v) steps_arg = NotAnArray 'v | Array "('w, 'v) element list"

text \<open>The \<open>forEach\<close> of the constructor: the first element that is not a function throws.\<close>

fun forEach_step :: "('w, 'v) element list \<Rightarrow> nat \<Rightarrow> js_error option" where
  "forEach_step [] i = None"
| "forEach_step (Function f # rest) i = forEach_step rest (i + 1)"
| "forEach_step (NotAFunction v # rest) i =
     Some (new_Error (ordinal (int i + 1) @ '' Transaction step is not a function''))"

fun functions_of :: "('w, 'v) element list \<Rightarrow> ('w, 'v) step list" where
  "functions_of [] = []"
| "functions_of (Function f # rest) = f # functions_of rest"
| "functions_of (NotAFunction v # rest) = functions_of rest"

definition Transaction ::
  "('v \<Rightarrow> string) \<Rightarrow> ('w, 'v) steps_arg \<Rightarrow> js_error + ('w, 'c, 'v) transaction" where
  "Transaction JSON_stringify arg =
     (case arg of
        NotAnArray v \<Rightarrow> Inl (new_Error (''Expected a list of functions, got '' @ JSON_stringify v))
      | Array elems \<Rightarrow>
          if length elems \<le> 0 then Inl (new_Error ''A transaction needs at least one step'')
          else (case forEach_step elems 0 of
                  Some e \<Rightarrow> Inl e
                | None \<Rightarrow>
                    Inr \<lparr>steps = functions_of elems,
                         callbacks_onSpecificErrors = [],
                         callbacks_onSuccess = None,
                         callbacks_onResume = None,
                         callbacks_onError = None,
                         currentStep = Undefined,
                         this_context = Map.empty,
                         resumedBeforeNextTick = False,
                         trace = []\<rparr>))"

definition is_function :: "('w, 'v) element \<Rightarrow> bool" where
  "is_function x = (case x of Function f \<Rightarrow> True | NotAFunction v \<Rightarrow> False)"

subsection \<open>Registering callbacks\<close>

definition onSuccess ::
  "('c \<times> ('w \<Rightarrow> js_error option)) option \<Rightarrow> ('w, 'c, 'v) transaction \<Rightarrow> ('w, 'c, 'v) transaction" where
  "onSuccess callback t = t\<lparr>callbacks_onSuccess := callback\<rparr>"

definition onResume :: "'c option \<Rightarrow> ('w, 'c, 'v) transaction \<Rightarrow> ('w, 'c, 'v) transaction" where
  "onResume callback t = t\<lparr>callbacks_onResume := callback\<rparr>"

definition onError :: "'c option \<Rightarrow> ('w, 'c, 'v) transaction \<Rightarrow> ('w, 'c, 'v) transaction" where
  "onError callback t = t\<lparr>callbacks_onError := callback\<rparr>"

text \<open>
  The first argument of \<open>onSpecificError\<close> is a string or a RegExp. \<open>new RegExp\<close> is
  the host's; it is the parameter \<open>RegExp\<close>.
\<close>

datatype error_pattern = AString string | ARegExp regexp

definition onSpecificError ::
  "(string \<Rightarrow> regexp) \<Rightarrow> error_pattern \<Rightarrow> 'c \<Rightarrow> ('w, 'c, 'v) transaction \<Rightarrow> ('w, 'c, 'v) transaction" where
  "onSpecificError RegExp error callback t =
     (let pattern = (case error of ARegExp r \<Rightarrow> r | AString s \<Rightarrow> RegExp (''^'' @ s @ ''$''))
      in t\<lparr>callbacks_onSpecificErrors := callbacks_onSpecificErrors t @ [(callback, pattern)]\<rparr>)"

subsection \<open>Arithmetic and indexing on \<open>currentStep\<close>\<close>

text \<open>\<open>x + 1\<close> and \<open>x - 1\<close>: \<open>undefined\<close> is converted to \<open>NaN\<close>.\<close>

definition plus_one :: "js_number \<Rightarrow> js_number" where
  "plus_one x = (case x of Undefined \<Rightarrow> NaN | NaN \<Rightarrow> NaN | Num i \<Rightarrow> Num (i + 1))"

definition minus_one :: "js_number \<Rightarrow> js_number" where
  "minus_one x = (case x of Undefined \<Rightarrow> NaN | NaN \<Rightarrow> NaN | Num i \<Rightarrow> Num (i - 1))"

text \<open>\<open>x >= n\<close>: false when \<open>x\<close> is \<open>undefined\<close> or \<open>NaN\<close>.\<close>

definition at_least :: "js_number \<Rightarrow> int \<Rightarrow> bool" where
  "at_least x n = (case x of Undefined \<Rightarrow> False | NaN \<Rightarrow> False | Num i \<Rightarrow> n \<le> i)"

text \<open>\<open>xs[x]\<close>: \<open>undefined\<close> unless \<open>x\<close> is an index of the array.\<close>

definition element_at :: "'a list \<Rightarrow> js_number \<Rightarrow> 'a option" where
  "element_at xs x =
     (case x of
        Undefined \<Rightarrow> None
      | NaN \<Rightarrow> None
      | Num i \<Rightarrow> if 0 \<le> i \<and> i < int (length xs) then Some (xs ! nat i) else None)"

text \<open>The position recorded with a call of a step: the index, which is then in range.\<close>

definition position :: "js_number \<Rightarrow> nat" where
  "position x = (case x of Undefined \<Rightarrow> 0 | NaN \<Rightarrow> 0 | Num i \<Rightarrow> nat i)"

subsection \<open>Running the steps\<close>

definition getNextStep ::
  "('w, 'c, 'v) transaction \<Rightarrow> ('w, 'c, 'v) transaction \<times> ('w, 'v) step option" where
  "getNextStep t =
     (let t' = t\<lparr>currentStep :=
                   (case currentStep t of Undefined \<Rightarrow> Num 0 | x \<Rightarrow> plus_one x)\<rparr>
      in (t', element_at (steps t') (currentStep t')))"

text \<open>
  \<open>ordinal\<close> of \<open>currentStep + 1\<close>. The text for \<open>NaN\<close> is never produced:
  \<open>handleStepError\<close> runs only after a step was found at \<open>currentStep\<close>.
\<close>

definition currentStepText :: "('w, 'c, 'v) transaction \<Rightarrow> string" where
  "currentStepText t =
     (if at_least (currentStep t) (int (length (steps t))) then ''onSuccess callback''
      else (case plus_one (currentStep t) of Num i \<Rightarrow> ordinal i | x \<Rightarrow> ''NaNth'') @ '' step'')"

text \<open>
  The function \<open>findErrorCallback\<close> returns is given by the calls it makes when it is
  applied to an error; \<open>None\<close> is \<open>undefined\<close>, when no pattern matches and there is
  no \<open>onError\<close> callback.
\<close>

definition findErrorCallback ::
  "('w, 'c, 'v) transaction \<Rightarrow> string \<Rightarrow> (js_error \<Rightarrow> ('c, 'v) event list) option" where
  "findErrorCallback t errorMessage =
     (let errorCallbacks =
            map fst (filter (\<lambda>(callback, pattern). pattern errorMessage)
                            (callbacks_onSpecificErrors t))
      in if errorCallbacks \<noteq> []
         then Some (\<lambda>error. map (\<lambda>errorCallback. OnSpecificErrorCalled errorCallback error)
                                 errorCallbacks)
         else (case callbacks_onError t of
                 None \<Rightarrow> None
               | Some callback \<Rightarrow> Some (\<lambda>error. [OnErrorCalled callback error])))"

text \<open>
  A method returns the transaction as it leaves it and the exception it throws, if any.
  Calling \<open>undefined\<close> throws a TypeError.
\<close>

definition handleStepError ::
  "('w, 'c, 'v) transaction \<Rightarrow> js_error \<Rightarrow> ('w, 'c, 'v) transaction \<times> js_error option" where
  "handleStepError t error =
     (let errorCallback = findErrorCallback t (message error);
          error' = error\<lparr>message := ''Error in '' @ currentStepText t @ '': '' @ message error\<rparr>;
          t1 = t\<lparr>resumedBeforeNextTick := True\<rparr>
      in case errorCallback of
           None \<Rightarrow> (t1, Some (new_TypeError ''errorCallback is not a function''))
         | Some call \<Rightarrow>
             (t1\<lparr>trace := trace t1 @ call error', resumedBeforeNextTick := False\<rparr>, None))"

definition afterTransactionIsComplete ::
  "('w, 'c, 'v) transaction \<Rightarrow> 'w \<Rightarrow> ('w, 'c, 'v) transaction \<times> js_error option" where
  "afterTransactionIsComplete t w =
     (case callbacks_onSuccess t of
        None \<Rightarrow> (t, None)
      | Some (callback, throws) \<Rightarrow> (t\<lparr>trace := trace t @ [OnSuccessCalled callback]\<rparr>, throws w))"

text \<open>\<open>typeof newContext === 'object' ? newContext : {}\<close>, as the properties \<open>Object.assign\<close> copies.\<close>

definition object_or_empty :: "'v resolution \<Rightarrow> 'v ctx" where
  "object_or_empty newContext = (case newContext of TypeofObject m \<Rightarrow> m | TypeofOther \<Rightarrow> Map.empty)"

text \<open>
  \<open>.catch(error => this.handleStepError(error))\<close>, applied to what the handler before
  it did: an exception of that handler is handled; an exception of \<open>handleStepError\<close>
  itself is caught by nobody.
\<close>

definition catch_handleStepError ::
  "('w, 'c, 'v) transaction \<times> js_error option \<Rightarrow> ('w, 'c, 'v) transaction \<times> js_error option" where
  "catch_handleStepError r =
     (case r of
        (t, None) \<Rightarrow> (t, None)
      | (t, Some error) \<Rightarrow> (fst (handleStepError t error), None))"

text \<open>The steps that a call of \<open>runNextStep\<close> can still reach.\<close>

definition remaining :: "('w, 'c, 'v) transaction \<Rightarrow> nat" where
  "remaining t =
     (case currentStep t of
        Undefined \<Rightarrow> length (steps t)
      | NaN \<Rightarrow> 0
      | Num i \<Rightarrow> if i + 1 < 0 then 0 else length (steps t) - nat (i + 1))"

text \<open>
  \<open>runNextStep\<close> calls the next step and attaches \<open>handleStepSuccess\<close> and
  \<open>handleStepError\<close> to the Promise it returns. The Promise settles after
  \<open>runNextStep\<close> has returned, and nothing follows the call of \<open>runNextStep\<close> in its
  callers, so the handlers are run in place.
\<close>

function runNextStep ::
    "('v \<Rightarrow> string) \<Rightarrow> ('w, 'c, 'v) transaction \<Rightarrow> 'w \<Rightarrow> ('w, 'c, 'v) transaction \<times> js_error option"
  and handleStepSuccess ::
    "('v \<Rightarrow> string) \<Rightarrow> ('w, 'c, 'v) transaction \<Rightarrow> 'v resolution \<Rightarrow> 'w
       \<Rightarrow> ('w, 'c, 'v) transaction \<times> js_error option"
where
  "runNextStep JSON_stringify t w =
     (case snd (getNextStep t) of
        None \<Rightarrow> afterTransactionIsComplete (fst (getNextStep t)) w
      | Some nextStep \<Rightarrow>
          (let t1 = fst (getNextStep t);
               t2 = t1\<lparr>trace := trace t1 @ [StepCalled (position (currentStep t1)) (this_context t1)]\<rparr>
           in case nextStep w (this_context t1) of
                Throws error \<Rightarrow> (t2, Some error)
              | Returns (NonPromise v) \<Rightarrow>
                  handleStepError t2
                    (new_Error (''it didn't return a Promise. Instead, it returned '' @ JSON_stringify v))
              | Returns (APromise Pending) \<Rightarrow> (t2, None)
              | Returns (APromise (Fulfilled newContext)) \<Rightarrow>
                  catch_handleStepError (handleStepSuccess JSON_stringify t2 newContext w)
              | Returns (APromise (Rejected error)) \<Rightarrow> catch_handleStepError (t2, Some error)))"
| "handleStepSuccess JSON_stringify t newContext w =
     runNextStep JSON_stringify
       (t\<lparr>this_context := this_context t ++ object_or_empty newContext\<rparr>) w"
  by pat_completeness auto
termination
proof (relation "measure (\<lambda>x. case x of
                     Inl (s, t, w) \<Rightarrow> 2 * remaining t + 1
                   | Inr (s, t, n, w) \<Rightarrow> 2 * remaining t + 2)")
  show "wf (measure (\<lambda>x. case x of
                     Inl (s :: 'v \<Rightarrow> string, t :: ('w, 'c, 'v) transaction, w :: 'w) \<Rightarrow> 2 * remaining t + 1
                   | Inr (s, t, n :: 'v resolution, w) \<Rightarrow> 2 * remaining t + 2))"
    by simp
next
  fix JSON_stringify :: "'v \<Rightarrow> string" and t :: "('w, 'c, 'v) transaction" and w :: 'w
    and x2 :: "('w, 'v) step" and x xa :: "('w, 'c, 'v) transaction"
    and x2a :: "('v, 'v resolution) returned" and x2b :: "'v resolution promise"
    and x1 :: "'v resolution"
  assume "snd (getNextStep t) = Some x2" and "x = fst (getNextStep t)"
    and "xa = x\<lparr>trace := trace x @ [StepCalled (position (currentStep x)) (this_context x)]\<rparr>"
  then show "(Inr (JSON_stringify, xa, x1, w), Inl (JSON_stringify, t, w))
          \<in> measure (\<lambda>x. case x of
                     Inl (s, t, w) \<Rightarrow> 2 * remaining t + 1
                   | Inr (s, t, n, w) \<Rightarrow> 2 * remaining t + 2)"
    by (cases "steps t")
       (auto simp: getNextStep_def remaining_def element_at_def plus_one_def Let_def
             split: js_number.splits if_splits)
next
  fix JSON_stringify :: "'v \<Rightarrow> string" and t :: "('w, 'c, 'v) transaction"
    and newContext :: "'v resolution" and w :: 'w
  show "(Inl (JSON_stringify,
              t\<lparr>this_context := this_context t ++ object_or_empty newContext\<rparr>, w),
         Inr (JSON_stringify, t, newContext, w))
          \<in> measure (\<lambda>x. case x of
                     Inl (s, t, w) \<Rightarrow> 2 * remaining t + 1
                   | Inr (s, t, n, w) \<Rightarrow> 2 * remaining t + 2)"
    by (simp add: remaining_def split: js_number.splits)
qed

declare runNextStep.simps [simp del] handleStepSuccess.simps [simp del]

definition execute ::
  "('v \<Rightarrow> string) \<Rightarrow> ('w, 'c, 'v) transaction \<Rightarrow> 'v ctx option \<Rightarrow> 'w
     \<Rightarrow> ('w, 'c, 'v) transaction \<times> js_error option" where
  "execute JSON_stringify t context_arg w =
     (if callbacks_onError t = None
      then (t, Some (new_Error (''You called `execute` before assigning an `onError` callback. ''
                      @ ''This means that errors in steps will be silenced. ''
                      @ ''Add an `onError` callback before calling `execute`.'')))
      else if at_least (currentStep t) 0
      then (t, Some (new_Error (''Transaction is already in progress. To resume the transaction, ''
                      @ ''use the `resume` method instead of `execute`'')))
      else runNextStep JSON_stringify
             (t\<lparr>this_context := (case context_arg of None \<Rightarrow> Map.empty | Some c \<Rightarrow> c)\<rparr>) w)"

definition warning :: string where
  "warning =
     ''You called `resolve` synchronously in an onError callback, which could produce an infinite loop. ''
     @ ''You should probably get user input before resuming the transaction -- or if you intend to restart it automatically, you should implement that inside of the Transaction class as an auto-retry param. ''
     @ ''If you do, only show this warning if auto-retry is not set to true.''"

definition resume ::
  "('v \<Rightarrow> string) \<Rightarrow> ('w, 'c, 'v) transaction \<Rightarrow> string option \<Rightarrow> 'w
     \<Rightarrow> ('w, 'c, 'v) transaction \<times> js_error option" where
  "resume JSON_stringify t suppressWarning w =
     (if resumedBeforeNextTick t \<and> suppressWarning \<noteq> Some ''Yes this is in test code''
      then (t\<lparr>trace := trace t @ [ConsoleWarn warning]\<rparr>, Some (new_Error warning))
      else (let t1 = (case callbacks_onResume t of
                        None \<Rightarrow> t
                      | Some callback \<Rightarrow> t\<lparr>trace := trace t @ [OnResumeCalled callback]\<rparr>);
                t2 = t1\<lparr>currentStep := minus_one (currentStep t1)\<rparr>
            in runNextStep JSON_stringify t2 w))"


section \<open>Promise chains\<close>

text \<open>
  A chain of \<open>then\<close> and \<open>catch\<close> is run with a state: each handler is given the
  value or the error of the Promise it is attached to and the state, and gives the
  Promise it returns (or what it throws, as a rejection) and the new state. A handler
  attached to a Promise that never settles does not run.
\<close>

definition promise_then ::
  "('a \<Rightarrow> 's \<Rightarrow> 'b promise \<times> 's) \<Rightarrow> 'a promise \<times> 's \<Rightarrow> 'b promise \<times> 's" where
  "promise_then onFulfilled p =
     (case p of
        (Fulfilled v, s) \<Rightarrow> onFulfilled v s
      | (Rejected error, s) \<Rightarrow> (Rejected error, s)
      | (Pending, s) \<Rightarrow> (Pending, s))"

definition promise_catch ::
  "(js_error \<Rightarrow> 's \<Rightarrow> 'a promise \<times> 's) \<Rightarrow> 'a promise \<times> 's \<Rightarrow> 'a promise \<times> 's" where
  "promise_catch onRejected p =
     (case p of
        (Fulfilled v, s) \<Rightarrow> (Fulfilled v, s)
      | (Rejected error, s) \<Rightarrow> onRejected error s
      | (Pending, s) \<Rightarrow> (Pending, s))"

definition map_promise :: "('a \<Rightarrow> 'b) \<Rightarrow> 'a promise \<Rightarrow> 'b promise" where
  "map_promise f p =
     (case p of Fulfilled v \<Rightarrow> Fulfilled (f v) | Rejected error \<Rightarrow> Rejected error | Pending \<Rightarrow> Pending)"

section \<open>assert-is-promise.js\<close>

definition assertIsPromise :: "('v \<Rightarrow> string) \<Rightarrow> ('v, 'a) returned \<Rightarrow> 'a promise" where
  "assertIsPromise JSON_stringify maybeAPromise =
     (case maybeAPromise of
        APromise (Rejected error) \<Rightarrow>
          Rejected (error\<lparr>message :=
                      ''it was rejected with '' @ [CHR 0x27] @ toString error @ [CHR 0x27]\<rparr>)
      | APromise p \<Rightarrow> p
      | NonPromise v \<Rightarrow>
          Rejected (new_Error (''it was expected to return a Promise, but instead it returned ''
                               @ JSON_stringify v)))"

section \<open>The state of one call of \<open>get\<close>\<close>

text \<open>
  What \<open>errorCatcher.results\<close> holds: an error, or the object \<open>recordSuccess\<close> makes
  (\<open>success: true\<close>, a step name and the value that \<open>toString\<close> renders).
\<close>

datatype 'v result = AnError js_error | ASuccess string 'v

text \<open>The calls \<open>get\<close> makes to the functions of the configuration, in order.\<close>

datatype 'v call = PrimarySourceCalled | SecondarySourceCalled nat | SynchronizerCalled nat 'v

text \<open>
  The handlers of \<open>get\<close> change the error catcher and the quitter that the call of
  \<open>get\<close> created, and \<open>this.getInProgress\<close>.
\<close>

record 'v run =
  errorCatcher_callingEntityName :: string
  errorCatcher_results :: "'v result list"
  quitter_doQuit :: bool
  this_getInProgress :: bool
  calls :: "'v call list"

section \<open>promise-chain-error-catcher.js\<close>

definition push :: "'v result \<Rightarrow> 'v run \<Rightarrow> 'v run" where
  "push result s = s\<lparr>errorCatcher_results := errorCatcher_results s @ [result]\<rparr>"

definition recordSuccess :: "string \<Rightarrow> 'v \<Rightarrow> 'v run \<Rightarrow> 'v promise \<times> 'v run" where
  "recordSuccess name v s = (Fulfilled v, push (ASuccess name v) s)"

definition nameError :: "string \<Rightarrow> js_error \<Rightarrow> 's \<Rightarrow> 'a promise \<times> 's" where
  "nameError name error s =
     (Rejected (error\<lparr>stepName := (case stepName error of None \<Rightarrow> Some name | Some n \<Rightarrow> Some n)\<rparr>), s)"

text \<open>
  The \<open>forEach\<close> of \<open>reportError\<close>. \<open>this.errorFilters\<close> is never defined, so an entry
  with a \<open>tag\<close> throws a TypeError (with the text of V8).
\<close>

fun forEach_result :: "('v \<Rightarrow> string) \<Rightarrow> 'v result list \<Rightarrow> string \<Rightarrow> js_error + string" where
  "forEach_result JSON_stringify [] errorMessage = Inr errorMessage"
| "forEach_result JSON_stringify (AnError oneError # rest) errorMessage =
     (case tag oneError of
        Some tg \<Rightarrow>
          Inl (new_TypeError (''Cannot read property '' @ [CHR 0x27] @ tg @ [CHR 0x27] @ '' of undefined''))
      | None \<Rightarrow>
          forEach_result JSON_stringify rest
            (errorMessage
             @ ''  - '' @ (case stepName oneError of None \<Rightarrow> ''undefined'' | Some n \<Rightarrow> n) @ '' ''
             @ ''failed because '' @ message oneError
             @ ''\<newline>''))"
| "forEach_result JSON_stringify (ASuccess name v # rest) errorMessage =
     forEach_result JSON_stringify rest
       (errorMessage
        @ ''  - '' @ name @ '' ''
        @ ''resolved with '' @ JSON_stringify v
        @ ''\<newline>'')"

text \<open>\<open>Inl\<close>: the error \<open>reportError\<close> throws; \<open>Inr\<close>: the error it returns.\<close>

definition reportError :: "('v \<Rightarrow> string) \<Rightarrow> 'v run \<Rightarrow> js_error + js_error" where
  "reportError JSON_stringify s =
     (case forEach_result JSON_stringify (errorCatcher_results s)
             (errorCatcher_callingEntityName s @ '' has failed.\<newline>'') of
        Inl thrown \<Rightarrow> Inl thrown
      | Inr errorMessage \<Rightarrow> Inr (new_Error errorMessage))"

definition handleFinalError :: "('v \<Rightarrow> string) \<Rightarrow> js_error \<Rightarrow> 'v run \<Rightarrow> 'a promise \<times> 'v run" where
  "handleFinalError JSON_stringify finalError s =
     (let s' = push (AnError finalError) s
      in (Rejected (case reportError JSON_stringify s' of Inl thrown \<Rightarrow> thrown | Inr error \<Rightarrow> error), s'))"

section \<open>quitter.js\<close>

text \<open>\<open>maybeQuit\<close>: the error it throws, if it throws.\<close>

definition maybeQuit :: "js_error \<Rightarrow> 'v run \<Rightarrow> js_error option" where
  "maybeQuit error s = (if quitter_doQuit s then Some error else None)"

definition quit :: "js_error \<Rightarrow> 'v run \<Rightarrow> 'a promise \<times> 'v run" where
  "quit error s = (Rejected error, s\<lparr>quitter_doQuit := True\<rparr>)"

text \<open>The handler \<open>() => {}\<close> returns \<open>undefined\<close>, here \<open>None\<close>.\<close>

definition quitOnCondition :: "bool \<Rightarrow> js_error \<Rightarrow> 'v run \<Rightarrow> 'a option promise \<times> 'v run" where
  "quitOnCondition condition = (if condition then quit else (\<lambda>error s. (Fulfilled None, s)))"

section \<open>really-determined-property-getter.js\<close>

text \<open>
  A source or a synchronizer is called at most once in a call of \<open>get\<close>; what it does
  then depends on the outside world at the time of the call, the parameter \<open>'w\<close>.
\<close>

type_synonym ('w, 'v) source = "'w \<Rightarrow> ('v, 'v) outcome"

type_synonym ('w, 'v) synchronizer = "'w \<Rightarrow> 'v \<Rightarrow> ('v, 'v) outcome"

record ('w, 'v) configuration =
  secondarySources :: "('w, 'v) source list"
  primarySourceSynchronizers :: "('w, 'v) synchronizer list"
  primarySource_of :: "('w, 'v) source option"
  verifier :: "('v \<Rightarrow> bool) option"
  ignoreSynchronizationErrors_of :: bool

record ('w, 'v) ReallyDeterminedPropertyGetter =
  configuration :: "('w, 'v) configuration"
  getInProgress :: bool

definition new_ReallyDeterminedPropertyGetter :: "('w, 'v) ReallyDeterminedPropertyGetter" where
  "new_ReallyDeterminedPropertyGetter =
     \<lparr>configuration =
        \<lparr>secondarySources = [], primarySourceSynchronizers = [], primarySource_of = None,
         verifier = None, ignoreSynchronizationErrors_of = False\<rparr>,
      getInProgress = False\<rparr>"

text \<open>
  The builder methods. The message of \<open>primarySource\<close> and of \<open>verify\<close> ends with the
  source text of the function registered before, which the model does not have.
\<close>

definition primarySource ::
  "('w, 'v) source \<Rightarrow> ('w, 'v) ReallyDeterminedPropertyGetter
     \<Rightarrow> js_error + ('w, 'v) ReallyDeterminedPropertyGetter" where
  "primarySource getter this =
     (if primarySource_of (configuration this) \<noteq> None
      then Inl (new_Error ''There can only be one primary source. You already registered this primary source:\<newline>'')
      else Inr (this\<lparr>configuration := (configuration this)\<lparr>primarySource_of := Some getter\<rparr>\<rparr>))"

definition secondarySource ::
  "('w, 'v) source \<Rightarrow> ('w, 'v) ReallyDeterminedPropertyGetter \<Rightarrow> ('w, 'v) ReallyDeterminedPropertyGetter" where
  "secondarySource getter this =
     this\<lparr>configuration :=
            (configuration this)\<lparr>secondarySources := secondarySources (configuration this) @ [getter]\<rparr>\<rparr>"

definition verify ::
  "('v \<Rightarrow> bool) \<Rightarrow> ('w, 'v) ReallyDeterminedPropertyGetter
     \<Rightarrow> js_error + ('w, 'v) ReallyDeterminedPropertyGetter" where
  "verify v this =
     (if verifier (configuration this) \<noteq> None
      then Inl (new_Error ''There can only be one verifier function. You already registered this verifier function:\<newline>'')
      else Inr (this\<lparr>configuration := (configuration this)\<lparr>verifier := Some v\<rparr>\<rparr>))"

definition synchronizeWithPrimarySource ::
  "('w, 'v) synchronizer \<Rightarrow> ('w, 'v) ReallyDeterminedPropertyGetter
     \<Rightarrow> ('w, 'v) ReallyDeterminedPropertyGetter" where
  "synchronizeWithPrimarySource primarySourceSynchronizer this =
     this\<lparr>configuration :=
            (configuration this)\<lparr>primarySourceSynchronizers :=
              primarySourceSynchronizers (configuration this) @ [primarySourceSynchronizer]\<rparr>\<rparr>"

definition ignoreSynchronizationErrors ::
  "('w, 'v) ReallyDeterminedPropertyGetter \<Rightarrow> ('w, 'v) ReallyDeterminedPropertyGetter" where
  "ignoreSynchronizationErrors this =
     this\<lparr>configuration := (configuration this)\<lparr>ignoreSynchronizationErrors_of := True\<rparr>\<rparr>"

definition verifyValue ::
  "('v \<Rightarrow> string) \<Rightarrow> ('w, 'v) configuration \<Rightarrow> 'v \<Rightarrow> 's \<Rightarrow> 'v promise \<times> 's" where
  "verifyValue JSON_stringify cfg v s =
     (case verifier cfg of
        None \<Rightarrow> (Fulfilled v, s)
      | Some accepts \<Rightarrow>
          if \<not> accepts v
          then (Rejected (new_Error (''the verifier function did not accept the value ''
                                     @ JSON_stringify v)), s)
          else (Fulfilled v, s))"

text \<open>
  The first handler that \<open>performSynchronizationWithPrimary\<close> attaches for the
  synchronizer at position \<open>index\<close>: \<open>() => assertIsPromise(primarySourceSynchronizer(value))\<close>.
\<close>

definition call_synchronizer ::
  "('v \<Rightarrow> string) \<Rightarrow> 'w \<Rightarrow> 'v \<Rightarrow> ('w, 'v) synchronizer \<Rightarrow> nat
     \<Rightarrow> 'v \<Rightarrow> 'v run \<Rightarrow> 'v option promise \<times> 'v run" where
  "call_synchronizer JSON_stringify w v primarySourceSynchronizer index =
     (\<lambda>_ s. let s' = s\<lparr>calls := calls s @ [SynchronizerCalled index v]\<rparr>
             in case primarySourceSynchronizer w v of
                  Throws error \<Rightarrow> (Rejected error, s')
                | Returns r \<Rightarrow> (map_promise Some (assertIsPromise JSON_stringify r), s'))"

text \<open>
  The body of the \<open>forEach\<close> of \<open>performSynchronizationWithPrimary\<close>: the four
  handlers attached to \<open>syncPromise\<close> for the synchronizer at position \<open>index\<close>.
\<close>

definition attach_synchronizer ::
  "('v \<Rightarrow> string) \<Rightarrow> ('w, 'v) configuration \<Rightarrow> 'w \<Rightarrow> 'v \<Rightarrow> ('w, 'v) synchronizer \<Rightarrow> nat
     \<Rightarrow> 'v promise \<times> 'v run \<Rightarrow> 'v promise \<times> 'v run" where
  "attach_synchronizer JSON_stringify cfg w v primarySourceSynchronizer index syncPromise =
     (let name = ''primarySourceSynchronizer function #'' @ string_of_nat (index + 1);
          p1 = promise_then (call_synchronizer JSON_stringify w v primarySourceSynchronizer index)
                 syncPromise;
          p2 = promise_catch (nameError name) p1;
          p3 = promise_catch (quitOnCondition (\<not> ignoreSynchronizationErrors_of cfg)) p2
      in promise_then (\<lambda>_ s. (Fulfilled v, s)) p3)"

text \<open>The \<open>forEach\<close> of \<open>performSynchronizationWithPrimary\<close>, from position \<open>index\<close> on.\<close>

fun forEach_synchronizer ::
  "('v \<Rightarrow> string) \<Rightarrow> ('w, 'v) configuration \<Rightarrow> 'w \<Rightarrow> 'v \<Rightarrow> ('w, 'v) synchronizer list \<Rightarrow> nat
     \<Rightarrow> 'v promise \<times> 'v run \<Rightarrow> 'v promise \<times> 'v run" where
  "forEach_synchronizer JSON_stringify cfg w v [] index syncPromise = syncPromise"
| "forEach_synchronizer JSON_stringify cfg w v (primarySourceSynchronizer # rest) index syncPromise =
     forEach_synchronizer JSON_stringify cfg w v rest (index + 1)
       (attach_synchronizer JSON_stringify cfg w v primarySourceSynchronizer index syncPromise)"

definition performSynchronizationWithPrimary ::
  "('v \<Rightarrow> string) \<Rightarrow> ('w, 'v) configuration \<Rightarrow> 'w \<Rightarrow> 'v \<Rightarrow> 'v run \<Rightarrow> 'v promise \<times> 'v run" where
  "performSynchronizationWithPrimary JSON_stringify cfg w v s =
     forEach_synchronizer JSON_stringify cfg w v (primarySourceSynchronizers cfg) 0 (Fulfilled v, s)"

text \<open>
  The handler that \<open>getFromSecondaries\<close> attaches for the secondary source at position
  \<open>index\<close>.
\<close>

definition try_secondarySource ::
  "('v \<Rightarrow> string) \<Rightarrow> ('w, 'v) configuration \<Rightarrow> 'w \<Rightarrow> ('w, 'v) source \<Rightarrow> nat
     \<Rightarrow> js_error \<Rightarrow> 'v run \<Rightarrow> 'v promise \<times> 'v run" where
  "try_secondarySource JSON_stringify cfg w source index =
     (\<lambda>secondaryError s.
        let name = ''secondary source #'' @ string_of_nat (index + 1)
        in case maybeQuit secondaryError s of
             Some thrown \<Rightarrow> (Rejected thrown, s)
           | None \<Rightarrow>
               (let s1 = push (AnError secondaryError) s;
                    s2 = s1\<lparr>calls := calls s1 @ [SecondarySourceCalled index]\<rparr>
                in case source w of
                     Throws error \<Rightarrow> (Rejected error, s2)
                   | Returns r \<Rightarrow>
                       (let q1 = promise_then (verifyValue JSON_stringify cfg)
                                   (assertIsPromise JSON_stringify r, s2);
                            q2 = promise_catch (nameError name) q1;
                            q3 = promise_then (recordSuccess name) q2
                        in promise_then
                             (performSynchronizationWithPrimary JSON_stringify cfg w) q3)))"

text \<open>The \<open>forEach\<close> of \<open>getFromSecondaries\<close>, from position \<open>index\<close> on.\<close>

fun forEach_secondarySource ::
  "('v \<Rightarrow> string) \<Rightarrow> ('w, 'v) configuration \<Rightarrow> 'w \<Rightarrow> ('w, 'v) source list \<Rightarrow> nat
     \<Rightarrow> 'v promise \<times> 'v run \<Rightarrow> 'v promise \<times> 'v run" where
  "forEach_secondarySource JSON_stringify cfg w [] index secondaryPromise = secondaryPromise"
| "forEach_secondarySource JSON_stringify cfg w (source # rest) index secondaryPromise =
     forEach_secondarySource JSON_stringify cfg w rest (index + 1)
       (promise_catch (try_secondarySource JSON_stringify cfg w source index) secondaryPromise)"

definition getFromSecondaries ::
  "('v \<Rightarrow> string) \<Rightarrow> ('w, 'v) configuration \<Rightarrow> 'w \<Rightarrow> js_error \<Rightarrow> 'v run \<Rightarrow> 'v promise \<times> 'v run" where
  "getFromSecondaries JSON_stringify cfg w primaryError s =
     forEach_secondarySource JSON_stringify cfg w (secondarySources cfg) 0 (Rejected primaryError, s)"

text \<open>
  \<open>get\<close> throws, or it returns a Promise. \<open>get_begin\<close> is \<open>get\<close> up to the call of the
  primary source: the exception of a guard, or the instance as it is while the call is
  in progress.
\<close>

definition get_begin ::
  "('w, 'v) ReallyDeterminedPropertyGetter \<Rightarrow> js_error + ('w, 'v) ReallyDeterminedPropertyGetter" where
  "get_begin this =
     (if getInProgress this
      then Inl (new_Error (''`get` was called again before the first call to `get` completed. ''
                           @ ''This will produce unexpected behavior and is not allowed.''))
      else if primarySource_of (configuration this) = None
      then Inl (new_Error (''Cannot get value without a primary source. ''
                           @ ''Use `.primarySource(() => primarySourcePromise)`''))
      else Inr (this\<lparr>getInProgress := True\<rparr>))"

datatype 'v get_result = GetThrew js_error | GetReturned "'v promise"

text \<open>
  The result of \<open>get\<close>, the instance once every handler that can run has run, and the
  calls made. A primary source that throws makes \<open>get\<close> throw, after
  \<open>getInProgress\<close> was set. (Calling a primary source that is not there is not reached:
  \<open>get_begin\<close> has thrown.)
\<close>

definition get ::
  "('v \<Rightarrow> string) \<Rightarrow> ('w, 'v) ReallyDeterminedPropertyGetter \<Rightarrow> 'w
     \<Rightarrow> 'v get_result \<times> ('w, 'v) ReallyDeterminedPropertyGetter \<times> 'v call list" where
  "get JSON_stringify this w =
     (case get_begin this of
        Inl thrown \<Rightarrow> (GetThrew thrown, this, [])
      | Inr this1 \<Rightarrow>
          (case primarySource_of (configuration this1) of
             None \<Rightarrow> (GetThrew (new_TypeError ''this.configuration.primarySource is not a function''), this1, [])
           | Some primary \<Rightarrow>
               (let cfg = configuration this1;
                    s0 = \<lparr>errorCatcher_callingEntityName = ''The Really Determined Property Getter'',
                          errorCatcher_results = [],
                          quitter_doQuit = False,
                          this_getInProgress = getInProgress this1,
                          calls = [PrimarySourceCalled]\<rparr>
                in case primary w of
                     Throws error \<Rightarrow> (GetThrew error, this1, [PrimarySourceCalled])
                   | Returns r \<Rightarrow>
                       (let p1 = promise_then (verifyValue JSON_stringify cfg)
                                   (assertIsPromise JSON_stringify r, s0);
                            p2 = promise_catch (nameError ''primary source'') p1;
                            p3 = promise_catch (getFromSecondaries JSON_stringify cfg w) p2;
                            p4 = promise_then (\<lambda>v s. (Fulfilled v, s\<lparr>this_getInProgress := False\<rparr>)) p3;
                            p5 = promise_catch (\<lambda>error s. (Rejected error, s\<lparr>this_getInProgress := False\<rparr>)) p4;
                            p6 = promise_catch (handleFinalError JSON_stringify) p5
                        in (GetReturned (fst p6),
                            this1\<lparr>getInProgress := this_getInProgress (snd p6)\<rparr>,
                            calls (snd p6))))))"

text \<open>
  \<open>new RegExp\<close> on a source \<open>^s$\<close> in which \<open>s\<close> has no metacharacter: the pattern
  matches the string \<open>s\<close> and no other.
\<close>

definition literal_RegExp :: "string \<Rightarrow> regexp" where
  "literal_RegExp source = (\<lambda>text. source = ''^'' @ text @ ''$'')"

section \<open>Notions used in the statements, and examples\<close>

text \<open>The calls of steps in a trace: the position of the step and the context it was given.\<close>

fun step_calls :: "('c, 'v) event list \<Rightarrow> (nat \<times> 'v ctx) list" where
  "step_calls [] = []"
| "step_calls (StepCalled i c # rest) = (i, c) # step_calls rest"
| "step_calls (other # rest) = step_calls rest"

text \<open>
  A step fails when it throws, returns something that is not a Promise, or returns a
  Promise that rejects.
\<close>

definition step_fails :: "('v, 'v resolution) outcome \<Rightarrow> bool" where
  "step_fails r =
     (case r of
        Throws error \<Rightarrow> True
      | Returns (NonPromise v) \<Rightarrow> True
      | Returns (APromise (Rejected error)) \<Rightarrow> True
      | Returns (APromise p) \<Rightarrow> False)"

text \<open>A step whose Promise resolves with \<open>r\<close>.\<close>

definition resolves_with :: "'v resolution \<Rightarrow> ('w, 'v) step" where
  "resolves_with r = (\<lambda>w c. Returns (APromise (Fulfilled r)))"

text \<open>\<open>new Transaction(fs)\<close> for a list of functions that is not empty; the callbacks are named by strings.\<close>

definition new_transaction :: "('w, 'v) step list \<Rightarrow> ('w, string, 'v) transaction" where
  "new_transaction fs =
     \<lparr>steps = fs,
      callbacks_onSpecificErrors = [],
      callbacks_onSuccess = None,
      callbacks_onResume = None,
      callbacks_onError = None,
      currentStep = Undefined,
      this_context = Map.empty,
      resumedBeforeNextTick = False,
      trace = []\<rparr>"

text \<open>Two steps that resolve, with \<open>onError\<close> and \<open>onSuccess\<close> callbacks.\<close>

definition two_steps :: "(unit, string, string) transaction" where
  "two_steps =
     onSuccess (Some (''done'', \<lambda>w. None))
       (onError (Some ''failed'')
          (new_transaction [resolves_with TypeofOther, resolves_with TypeofOther]))"

text \<open>A step that rejects in the first run and resolves in the second.\<close>

definition failing_once :: "(bool, nat) step" where
  "failing_once =
     (\<lambda>retry c. if retry then Returns (APromise (Fulfilled (TypeofObject [''step3'' \<mapsto> 3])))
                 else Returns (APromise (Rejected (new_Error ''step 3 failed''))))"

text \<open>Five steps, the third of which is \<open>failing_once\<close>.\<close>

definition five_steps :: "(bool, string, nat) transaction" where
  "five_steps =
     onError (Some ''failed'')
       (new_transaction
          [resolves_with (TypeofObject [''step1'' \<mapsto> 1]),
           resolves_with TypeofOther,
           failing_once,
           resolves_with (TypeofObject [''step4'' \<mapsto> 4]),
           resolves_with TypeofOther])"

text \<open>One step that rejects with \<open>new Error('boom')\<close>, and a specific callback for the message \<open>boom\<close>.\<close>

definition boom :: "(unit, string, string) transaction" where
  "boom =
     onSpecificError literal_RegExp (AString ''boom'') ''specific''
       (onError (Some ''general'')
          (new_transaction [\<lambda>w c. Returns (APromise (Rejected (new_Error ''boom'')))]))"


text \<open>The calls of \<open>onError\<close> and \<open>onSpecificError\<close> callbacks in a trace, with the errors they were given.\<close>

fun error_calls :: "('c, 'v) event list \<Rightarrow> ('c, 'v) event list" where
  "error_calls [] = []"
| "error_calls (OnErrorCalled c e # rest) = OnErrorCalled c e # error_calls rest"
| "error_calls (OnSpecificErrorCalled c e # rest) = OnSpecificErrorCalled c e # error_calls rest"
| "error_calls (other # rest) = error_calls rest"

text \<open>
  The context after the steps of a list have been called one after the other and the
  Promise of each has resolved; \<open>None\<close> when one of them does anything else.
\<close>

fun context_after :: "('w, 'v) step list \<Rightarrow> 'w \<Rightarrow> 'v ctx \<Rightarrow> 'v ctx option" where
  "context_after [] w c = Some c"
| "context_after (step # rest) w c =
     (case step w c of
        Returns (APromise (Fulfilled newContext)) \<Rightarrow> context_after rest w (c ++ object_or_empty newContext)
      | other \<Rightarrow> None)"

text \<open>
  The error of a step that fails: the error it throws, the error \<open>runNextStep\<close> makes
  for what it returned that is not a Promise, or the error its Promise rejects with.
\<close>

definition step_failure :: "('v \<Rightarrow> string) \<Rightarrow> ('v, 'v resolution) outcome \<Rightarrow> js_error option" where
  "step_failure JSON_stringify r =
     (case r of
        Throws error \<Rightarrow> Some error
      | Returns (NonPromise v) \<Rightarrow>
          Some (new_Error (''it didn't return a Promise. Instead, it returned '' @ JSON_stringify v))
      | Returns (APromise (Rejected error)) \<Rightarrow> Some error
      | Returns (APromise (Fulfilled newContext)) \<Rightarrow> None
      | Returns (APromise Pending) \<Rightarrow> None)"

text \<open>The call of a function throws.\<close>

definition has_thrown :: "('n, 'a) outcome \<Rightarrow> bool" where
  "has_thrown r = (case r of Throws error \<Rightarrow> True | Returns x \<Rightarrow> False)"

text \<open>A source whose Promise rejects with \<open>new Error(m)\<close>, and one whose Promise resolves with \<open>v\<close>.\<close>

definition rejecting :: "string \<Rightarrow> ('w, 'v) source" where
  "rejecting m = (\<lambda>w. Returns (APromise (Rejected (new_Error m))))"

definition resolving :: "'v \<Rightarrow> ('w, 'v) source" where
  "resolving v = (\<lambda>w. Returns (APromise (Fulfilled v)))"

text \<open>
  \<open>primarySource\<close> on a getter that has no primary source yet, where it does not throw.
\<close>

definition with_primarySource ::
  "('w, 'v) source \<Rightarrow> ('w, 'v) ReallyDeterminedPropertyGetter \<Rightarrow> ('w, 'v) ReallyDeterminedPropertyGetter" where
  "with_primarySource getter this =
     (case primarySource getter this of Inl thrown \<Rightarrow> this | Inr this' \<Rightarrow> this')"

text \<open>
  \<open>new ReallyDeterminedPropertyGetter().primarySource(X).secondarySource(Y)\<close>, both sources
  rejecting.
\<close>

definition two_failing_sources :: "(unit, string) ReallyDeterminedPropertyGetter" where
  "two_failing_sources =
     secondarySource (rejecting ''Y'')
       (with_primarySource (rejecting ''X'') new_ReallyDeterminedPropertyGetter)"

text \<open>A value is accepted when there is no verifier, or the verifier returns true on it.\<close>

definition accepted_by :: "('w, 'v) configuration \<Rightarrow> 'v \<Rightarrow> bool" where
  "accepted_by cfg v = (case verifier cfg of None \<Rightarrow> True | Some accepts \<Rightarrow> accepts v)"

text \<open>
  A source fails when it throws, returns something that is not a Promise, returns a
  Promise that rejects, or resolves with a value that is not accepted. A source whose
  Promise never settles does not fail.
\<close>

definition source_fails :: "('w, 'v) configuration \<Rightarrow> ('v, 'v) outcome \<Rightarrow> bool" where
  "source_fails cfg r =
     (case r of
        Throws error \<Rightarrow> True
      | Returns (NonPromise v) \<Rightarrow> True
      | Returns (APromise (Rejected error)) \<Rightarrow> True
      | Returns (APromise (Fulfilled v)) \<Rightarrow> \<not> accepted_by cfg v
      | Returns (APromise Pending) \<Rightarrow> False)"

text \<open>The positions (from 0) of the secondary sources called, in the order of the calls.\<close>

fun secondary_calls :: "'v call list \<Rightarrow> nat list" where
  "secondary_calls [] = []"
| "secondary_calls (SecondarySourceCalled i # rest) = i # secondary_calls rest"
| "secondary_calls (other # rest) = secondary_calls rest"

text \<open>The synchronizers called, by position (from 0), with the value each was given.\<close>

fun synchronizer_calls :: "'v call list \<Rightarrow> (nat \<times> 'v) list" where
  "synchronizer_calls [] = []"
| "synchronizer_calls (SynchronizerCalled i v # rest) = (i, v) # synchronizer_calls rest"
| "synchronizer_calls (other # rest) = synchronizer_calls rest"

text \<open>
  A Promise of the chain of \<open>getFromSecondaries\<close> after which no further secondary
  source is called: it is fulfilled, it never settles, or it is rejected and the quitter
  has been told to quit.
\<close>

definition closed :: "'a promise \<times> 'v run \<Rightarrow> bool" where
  "closed p =
     (case fst p of
        Fulfilled v \<Rightarrow> True
      | Pending \<Rightarrow> True
      | Rejected error \<Rightarrow> quitter_doQuit (snd p))"

text \<open>
  The next synchronizer is called after this one when its Promise resolves, or when it
  fails and synchronization errors are ignored.
\<close>

definition sync_continues :: "('w, 'v) configuration \<Rightarrow> ('v, 'v) outcome \<Rightarrow> bool" where
  "sync_continues cfg r =
     (case r of
        Throws error \<Rightarrow> ignoreSynchronizationErrors_of cfg
      | Returns (NonPromise x) \<Rightarrow> ignoreSynchronizationErrors_of cfg
      | Returns (APromise (Rejected error)) \<Rightarrow> ignoreSynchronizationErrors_of cfg
      | Returns (APromise (Fulfilled x)) \<Rightarrow> True
      | Returns (APromise Pending) \<Rightarrow> False)"

text \<open>
  After a synchronizer that does not let the chain go on, the chain never settles, or it
  is rejected, the quitter has been told to quit and synchronization errors are not
  ignored.
\<close>

definition stopped :: "('w, 'v) configuration \<Rightarrow> 'a promise \<times> 'v run \<Rightarrow> bool" where
  "stopped cfg p =
     (case fst p of
        Fulfilled x \<Rightarrow> False
      | Pending \<Rightarrow> True
      | Rejected error \<Rightarrow> quitter_doQuit (snd p) \<and> \<not> ignoreSynchronizationErrors_of cfg)"

text \<open>A synchronizer whose Promise resolves, and one whose Promise rejects with \<open>new Error(m)\<close>.\<close>

definition resolving_synchronizer :: "('w, 'v) synchronizer" where
  "resolving_synchronizer = (\<lambda>w v. Returns (APromise (Fulfilled v)))"

definition rejecting_synchronizer :: "string \<Rightarrow> ('w, 'v) synchronizer" where
  "rejecting_synchronizer m = (\<lambda>w v. Returns (APromise (Rejected (new_Error m))))"

text \<open>
  A failing primary source, four secondary sources of which the third is the first to
  resolve, and three synchronizers of which the second rejects.
\<close>

definition third_source_accepted :: "(unit, string) ReallyDeterminedPropertyGetter" where
  "third_source_accepted =
     synchronizeWithPrimarySource resolving_synchronizer
       (synchronizeWithPrimarySource (rejecting_synchronizer ''nope'')
          (synchronizeWithPrimarySource resolving_synchronizer
             (secondarySource (resolving ''never'')
                (secondarySource (resolving ''good'')
                   (secondarySource (rejecting ''Z'')
                      (secondarySource (rejecting ''Y'')
                         (with_primarySource (rejecting ''X'')
                            new_ReallyDeterminedPropertyGetter)))))))"

text \<open>A primary source that resolves, a secondary source and a synchronizer.\<close>

definition primary_accepted :: "(unit, string) ReallyDeterminedPropertyGetter" where
  "primary_accepted =
     synchronizeWithPrimarySource resolving_synchronizer
       (secondarySource (resolving ''other'')
          (with_primarySource (resolving ''good'') new_ReallyDeterminedPropertyGetter))"

text \<open>A primary source that resolves and a synchronizer, with no secondary source.\<close>

definition primary_only :: "(unit, string) ReallyDeterminedPropertyGetter" where
  "primary_only =
     synchronizeWithPrimarySource resolving_synchronizer
       (with_primarySource (resolving ''good'') new_ReallyDeterminedPropertyGetter)"

text \<open>A primary source whose Promise never settles.\<close>

definition never_settling :: "(unit, string) ReallyDeterminedPropertyGetter" where
  "never_settling =
     with_primarySource (\<lambda>w. Returns (APromise Pending)) new_ReallyDeterminedPropertyGetter"

section \<open>Construction\<close>

lemma forEach_step_first_bad:
  "list_all is_function pre \<Longrightarrow> \<not> is_function x \<Longrightarrow>
   forEach_step (pre @ x # rest) i =
     Some (new_Error (ordinal (int (i + length pre) + 1) @ '' Transaction step is not a function''))"
proof (induction pre arbitrary: i)
  case Nil
  then show ?case by (cases x) (simp_all add: is_function_def)
next
  case (Cons p pre)
  then show ?case by (cases p) (simp_all add: is_function_def)
qed

lemma ordinal_3: "ordinal 3 = ''3rd''"
  by (simp add: ordinal_def indicator_def string_of_nat.simps [of 3])

text \<open>
  C8. Constructing a transaction with an empty list throws an error whose message
  contains "needs at least one step". Constructing it with a list whose first element
  that is not a function is at position \<open>n\<close> (counted from 1) throws an error that
  names that position as an ordinal; a list whose first two elements are functions and
  whose third is not is reported as the 3rd.
\<close>

theorem constructor_validation:
  fixes JSON_stringify :: "'v \<Rightarrow> string"
    and pre rest rest' :: "('w, 'v) element list"
    and x y :: "('w, 'v) element"
    and f g :: "('w, 'v) step"
  shows
  "(Transaction JSON_stringify (Array ([] :: ('w, 'v) element list)) :: js_error + ('w, 'c, 'v) transaction)
      = Inl (new_Error (''A transaction '' @ ''needs at least one step''))
   \<and> (list_all is_function pre \<and> \<not> is_function x \<longrightarrow>
         (Transaction JSON_stringify (Array (pre @ x # rest)) :: js_error + ('w, 'c, 'v) transaction)
           = Inl (new_Error (ordinal (int (length pre) + 1) @ '' Transaction step is not a function'')))
   \<and> (\<not> is_function y \<longrightarrow>
         (Transaction JSON_stringify (Array (Function f # Function g # y # rest')) :: js_error + ('w, 'c, 'v) transaction)
           = Inl (new_Error ''3rd Transaction step is not a function''))"
proof (intro conjI impI)
  show "(Transaction JSON_stringify (Array ([] :: ('w, 'v) element list)) :: js_error + ('w, 'c, 'v) transaction)
      = Inl (new_Error (''A transaction '' @ ''needs at least one step''))"
    by (simp add: Transaction_def)
next
  assume "list_all is_function pre \<and> \<not> is_function x"
  then show "(Transaction JSON_stringify (Array (pre @ x # rest)) :: js_error + ('w, 'c, 'v) transaction)
           = Inl (new_Error (ordinal (int (length pre) + 1) @ '' Transaction step is not a function''))"
    using forEach_step_first_bad [of pre x rest 0] by (simp add: Transaction_def)
next
  assume "\<not> is_function y"
  then have "forEach_step ([Function f, Function g] @ y # rest') 0
           = Some (new_Error (ordinal (int (0 + length [Function f, Function g]) + 1) @ '' Transaction step is not a function''))"
    by (intro forEach_step_first_bad) (simp_all add: is_function_def)
  then show "(Transaction JSON_stringify (Array (Function f # Function g # y # rest')) :: js_error + ('w, 'c, 'v) transaction)
           = Inl (new_Error ''3rd Transaction step is not a function'')"
    using ordinal_3 by (simp add: Transaction_def)
qed

theorem constructor_validation_witness:
  "list_all is_function [Function (\<lambda>w c. Returns (APromise (Fulfilled TypeofOther))),
                         Function (\<lambda>w c. Returns (APromise (Fulfilled TypeofOther)))]
   \<and> \<not> is_function (NotAFunction ''x'' :: (unit, string) element)
   \<and> (Transaction (\<lambda>v. v)
        (Array [Function (\<lambda>w c. Returns (APromise (Fulfilled TypeofOther))),
                Function (\<lambda>w c. Returns (APromise (Fulfilled TypeofOther))),
                NotAFunction ''x'',
                Function (\<lambda>w c. Returns (APromise (Fulfilled TypeofOther)))])
        :: js_error + (unit, string, string) transaction)
       = Inl (new_Error ''3rd Transaction step is not a function'')
   \<and> (Transaction (\<lambda>v. v) (Array ([] :: (unit, string) element list))
        :: js_error + (unit, string, string) transaction)
       = Inl (new_Error ''A transaction needs at least one step'')"
  using constructor_validation
          [where ?'w = unit and ?'v = string and ?'c = string and JSON_stringify = "\<lambda>v. v"
             and pre = "[Function (\<lambda>w c. Returns (APromise (Fulfilled TypeofOther))),
                         Function (\<lambda>w c. Returns (APromise (Fulfilled TypeofOther)))]"
             and x = "NotAFunction ''x''"
             and rest = "[Function (\<lambda>w c. Returns (APromise (Fulfilled TypeofOther)))]"
             and y = "NotAFunction ''x''"]
        ordinal_3
  by (simp add: is_function_def)

section \<open>What the methods of a transaction keep\<close>

lemma handleStepError_frame:
  "currentStep (fst (handleStepError t e)) = currentStep t"
  "callbacks_onError (fst (handleStepError t e)) = callbacks_onError t"
  "steps (fst (handleStepError t e)) = steps t"
  "this_context (fst (handleStepError t e)) = this_context t"
  by (simp_all add: handleStepError_def Let_def split: option.splits)

lemma catch_handleStepError_frame:
  "currentStep (fst (catch_handleStepError r)) = currentStep (fst r)"
  "callbacks_onError (fst (catch_handleStepError r)) = callbacks_onError (fst r)"
  "steps (fst (catch_handleStepError r)) = steps (fst r)"
  "this_context (fst (catch_handleStepError r)) = this_context (fst r)"
  by (simp_all add: catch_handleStepError_def handleStepError_frame split: prod.splits option.splits)

lemma afterTransactionIsComplete_frame:
  "currentStep (fst (afterTransactionIsComplete t w)) = currentStep t"
  "callbacks_onError (fst (afterTransactionIsComplete t w)) = callbacks_onError t"
  "steps (fst (afterTransactionIsComplete t w)) = steps t"
  "this_context (fst (afterTransactionIsComplete t w)) = this_context t"
  by (simp_all add: afterTransactionIsComplete_def split: option.splits prod.splits)

lemma getNextStep_frame:
  "callbacks_onError (fst (getNextStep t)) = callbacks_onError t"
  "steps (fst (getNextStep t)) = steps t"
  "this_context (fst (getNextStep t)) = this_context t"
  by (simp_all add: getNextStep_def Let_def)

lemma getNextStep_started:
  "currentStep t = Undefined \<or> at_least (currentStep t) (- 1) \<Longrightarrow>
   at_least (currentStep (fst (getNextStep t))) 0"
  by (auto simp: getNextStep_def Let_def at_least_def plus_one_def split: js_number.splits)

lemma runNextStep_onError:
  "callbacks_onError (fst (runNextStep JSON_stringify t w)) = callbacks_onError t"
  "callbacks_onError (fst (handleStepSuccess JSON_stringify t n w)) = callbacks_onError t"
proof (induction JSON_stringify t w and JSON_stringify t n w rule: runNextStep_handleStepSuccess.induct)
  case (1 JSON_stringify t w)
  show ?case
    by (subst runNextStep.simps)
       (auto simp: Let_def handleStepError_frame catch_handleStepError_frame
                   afterTransactionIsComplete_frame getNextStep_frame "1.IH"
             split: option.splits outcome.splits returned.splits promise.splits)
next
  case (2 JSON_stringify t newContext w)
  then show ?case by (simp add: handleStepSuccess.simps)
qed

lemma runNextStep_started:
  "currentStep t = Undefined \<or> at_least (currentStep t) (- 1) \<Longrightarrow>
   at_least (currentStep (fst (runNextStep JSON_stringify t w))) 0"
  "at_least (currentStep t) 0 \<Longrightarrow>
   at_least (currentStep (fst (handleStepSuccess JSON_stringify t n w))) 0"
proof (induction JSON_stringify t w and JSON_stringify t n w rule: runNextStep_handleStepSuccess.induct)
  case (1 JSON_stringify t w)
  have started: "at_least (currentStep (fst (getNextStep t))) 0"
    using "1.prems" by (rule getNextStep_started)
  show ?case
    by (subst runNextStep.simps)
       (auto simp: Let_def handleStepError_frame catch_handleStepError_frame
                   afterTransactionIsComplete_frame started "1.IH"
             split: option.splits outcome.splits returned.splits promise.splits)
next
  case (2 JSON_stringify t newContext w)
  then show ?case by (simp add: handleStepSuccess.simps at_least_def split: js_number.splits)
qed

section \<open>The steps a run calls\<close>

lemma step_calls_append: "step_calls (xs @ ys) = step_calls xs @ step_calls ys"
  by (induction xs rule: step_calls.induct) simp_all

lemma step_calls_specific: "step_calls (map (\<lambda>c. OnSpecificErrorCalled c e) cs) = []"
  by (induction cs) simp_all

lemma step_calls_error_callback:
  "findErrorCallback t m = Some call \<Longrightarrow> step_calls (call e) = []"
  by (auto simp: findErrorCallback_def Let_def step_calls_specific simp del: map_map
           split: if_splits option.splits)

lemma handleStepError_handled:
  assumes "callbacks_onError t \<noteq> None"
  shows "\<exists>evs. step_calls evs = []
           \<and> handleStepError t e = (t\<lparr>trace := trace t @ evs, resumedBeforeNextTick := False\<rparr>, None)"
proof -
  have "\<exists>call. findErrorCallback t (message e) = Some call"
    using assms by (cases "callbacks_onError t") (simp_all add: findErrorCallback_def Let_def)
  then obtain call where c: "findErrorCallback t (message e) = Some call"
    by blast
  let ?e = "e\<lparr>message := ''Error in '' @ currentStepText t @ '': '' @ message e\<rparr>"
  have "handleStepError t e = (t\<lparr>trace := trace t @ call ?e, resumedBeforeNextTick := False\<rparr>, None)"
    using c by (simp add: handleStepError_def Let_def)
  moreover have "step_calls (call ?e) = []"
    using c by (rule step_calls_error_callback)
  ultimately show ?thesis by blast
qed

lemma handleStepError_step_calls:
  "step_calls (trace (fst (handleStepError t e))) = step_calls (trace t)"
  by (auto simp: handleStepError_def Let_def step_calls_append step_calls_error_callback
           split: option.splits)

lemma catch_handleStepError_step_calls:
  "step_calls (trace (fst (catch_handleStepError r))) = step_calls (trace (fst r))"
  by (simp add: catch_handleStepError_def handleStepError_step_calls split: prod.splits option.splits)

lemma catch_handleStepError_returned: "catch_handleStepError (t, None) = (t, None)"
  by (simp add: catch_handleStepError_def)

lemma afterTransactionIsComplete_step_calls:
  "step_calls (trace (fst (afterTransactionIsComplete t w))) = step_calls (trace t)"
  by (simp add: afterTransactionIsComplete_def step_calls_append split: option.splits prod.splits)

lemma runNextStep_resolved:
  assumes "getNextStep t = (t1, Some step)"
    and "step w (this_context t1) = Returns (APromise (Fulfilled r))"
  shows "runNextStep JSON_stringify t w =
           catch_handleStepError
             (runNextStep JSON_stringify
                (t1\<lparr>trace := trace t1 @ [StepCalled (position (currentStep t1)) (this_context t1)],
                    this_context := this_context t1 ++ object_or_empty r\<rparr>) w)"
  by (subst runNextStep.simps) (simp add: assms handleStepSuccess.simps Let_def)

lemma runNextStep_failed:
  assumes "getNextStep t = (t1, Some step)"
    and "step_fails (step w (this_context t1))"
    and "callbacks_onError t \<noteq> None"
  shows "\<exists>evs. step_calls evs = []
           \<and> catch_handleStepError (runNextStep JSON_stringify t w) =
               (t1\<lparr>trace := trace t1 @ [StepCalled (position (currentStep t1)) (this_context t1)] @ evs,
                    resumedBeforeNextTick := False\<rparr>, None)"
proof -
  let ?t2 = "t1\<lparr>trace := trace t1 @ [StepCalled (position (currentStep t1)) (this_context t1)]\<rparr>"
  have t1: "t1 = fst (getNextStep t)" using assms(1) by simp
  have cb: "callbacks_onError ?t2 \<noteq> None"
    using assms(3) by (simp add: t1 getNextStep_frame)
  have "\<exists>e. catch_handleStepError (runNextStep JSON_stringify t w) = handleStepError ?t2 e"
  proof (cases "step w (this_context t1)")
    case (Throws error)
    then have "runNextStep JSON_stringify t w = (?t2, Some error)"
      by (subst runNextStep.simps) (simp add: assms(1) Let_def)
    moreover obtain evs where "handleStepError ?t2 error = (?t2\<lparr>trace := trace ?t2 @ evs, resumedBeforeNextTick := False\<rparr>, None)"
      using handleStepError_handled [OF cb] by blast
    ultimately show ?thesis
      by (intro exI [of _ error]) (simp add: catch_handleStepError_def)
  next
    case (Returns ret)
    show ?thesis
    proof (cases ret)
      case (NonPromise v)
      let ?e = "new_Error (''it didn't return a Promise. Instead, it returned '' @ JSON_stringify v)"
      obtain evs where h: "handleStepError ?t2 ?e = (?t2\<lparr>trace := trace ?t2 @ evs, resumedBeforeNextTick := False\<rparr>, None)"
        using handleStepError_handled [OF cb] by blast
      have "runNextStep JSON_stringify t w = handleStepError ?t2 ?e"
        using Returns NonPromise by (subst runNextStep.simps) (simp add: assms(1) Let_def)
      then show ?thesis
        using h by (intro exI [of _ ?e]) (simp add: catch_handleStepError_def)
    next
      case (APromise p)
      then obtain error where p: "p = Rejected error"
        using assms(2) Returns by (cases p) (simp_all add: step_fails_def)
      obtain evs where h: "handleStepError ?t2 error = (?t2\<lparr>trace := trace ?t2 @ evs, resumedBeforeNextTick := False\<rparr>, None)"
        using handleStepError_handled [OF cb] by blast
      have "runNextStep JSON_stringify t w = catch_handleStepError (?t2, Some error)"
        using Returns APromise p by (subst runNextStep.simps) (simp add: assms(1) Let_def)
      then show ?thesis
        using h by (intro exI [of _ error]) (simp add: catch_handleStepError_def)
    qed
  qed
  then obtain e where e: "catch_handleStepError (runNextStep JSON_stringify t w) = handleStepError ?t2 e"
    by blast
  obtain evs where "step_calls evs = []"
    and "handleStepError ?t2 e = (?t2\<lparr>trace := trace ?t2 @ evs, resumedBeforeNextTick := False\<rparr>, None)"
    using handleStepError_handled [OF cb] by blast
  then show ?thesis using e by (intro exI [of _ evs]) simp
qed

lemma runNextStep_complete:
  assumes "getNextStep t = (t1, None)"
  shows "step_calls (trace (fst (catch_handleStepError (runNextStep JSON_stringify t w))))
           = step_calls (trace t)"
proof -
  have "runNextStep JSON_stringify t w = afterTransactionIsComplete t1 w"
    by (subst runNextStep.simps) (simp add: assms)
  moreover have "trace t1 = trace t"
    using assms by (auto simp: getNextStep_def Let_def)
  ultimately show ?thesis
    by (simp add: catch_handleStepError_step_calls afterTransactionIsComplete_step_calls)
qed

lemma runNextStep_last:
  assumes "getNextStep t = (t1, Some step)"
    and "currentStep t1 = Num i" and "int (length (steps t1)) \<le> i + 1"
  shows "step_calls (trace (fst (catch_handleStepError (runNextStep JSON_stringify t w))))
           = step_calls (trace t) @ [(position (currentStep t1), this_context t1)]"
proof -
  let ?t2 = "t1\<lparr>trace := trace t1 @ [StepCalled (position (currentStep t1)) (this_context t1)]\<rparr>"
  have tr: "trace t1 = trace t"
    using assms(1) by (auto simp: getNextStep_def Let_def)
  have called: "step_calls (trace ?t2) = step_calls (trace t) @ [(position (currentStep t1), this_context t1)]"
    by (simp add: tr step_calls_append)
  show ?thesis
  proof (cases "step w (this_context t1)")
    case (Throws error)
    then have "runNextStep JSON_stringify t w = (?t2, Some error)"
      by (subst runNextStep.simps) (simp add: assms(1) Let_def)
    then show ?thesis
      using called by (simp add: catch_handleStepError_step_calls)
  next
    case (Returns ret)
    show ?thesis
    proof (cases ret)
      case (NonPromise v)
      then have "runNextStep JSON_stringify t w =
                   handleStepError ?t2
                     (new_Error (''it didn't return a Promise. Instead, it returned '' @ JSON_stringify v))"
        using Returns by (subst runNextStep.simps) (simp add: assms(1) Let_def)
      then show ?thesis
        using called by (simp add: catch_handleStepError_step_calls handleStepError_step_calls)
    next
      case (APromise p)
      show ?thesis
      proof (cases p)
        case (Fulfilled r)
        let ?t3 = "?t2\<lparr>this_context := this_context t1 ++ object_or_empty r\<rparr>"
        have run: "runNextStep JSON_stringify t w
                     = catch_handleStepError (runNextStep JSON_stringify ?t3 w)"
          using runNextStep_resolved [OF assms(1), of w r JSON_stringify] Returns APromise Fulfilled
          by simp
        have "getNextStep ?t3 = (?t3\<lparr>currentStep := Num (i + 1)\<rparr>, None)"
          using assms(2,3) by (auto simp: getNextStep_def Let_def plus_one_def element_at_def)
        then have "step_calls (trace (fst (catch_handleStepError (runNextStep JSON_stringify ?t3 w))))
                     = step_calls (trace ?t3)"
          by (rule runNextStep_complete)
        then show ?thesis
          using called by (simp add: run catch_handleStepError_step_calls)
      next
        case (Rejected error)
        then have "runNextStep JSON_stringify t w = catch_handleStepError (?t2, Some error)"
          using Returns APromise by (subst runNextStep.simps) (simp add: assms(1) Let_def)
        then show ?thesis
          using called by (simp add: catch_handleStepError_step_calls)
      next
        case Pending
        then have "runNextStep JSON_stringify t w = (?t2, None)"
          using Returns APromise by (subst runNextStep.simps) (simp add: assms(1) Let_def)
        then show ?thesis
          using called by (simp add: catch_handleStepError_step_calls)
      qed
    qed
  qed
qed

lemma getNextStep_at:
  assumes "currentStep t = Num i" and "0 \<le> i + 1" and "nat (i + 1) < length (steps t)"
  shows "getNextStep t = (t\<lparr>currentStep := Num (i + 1)\<rparr>, Some (steps t ! nat (i + 1)))"
  using assms by (auto simp: getNextStep_def Let_def plus_one_def element_at_def)

lemma getNextStep_first:
  assumes "currentStep t = Undefined" and "steps t \<noteq> []"
  shows "getNextStep t = (t\<lparr>currentStep := Num 0\<rparr>, Some (steps t ! 0))"
  using assms by (auto simp: getNextStep_def Let_def element_at_def)

lemma getNextStep_past:
  assumes "currentStep t = Num i" and "int (length (steps t)) \<le> i + 1"
  shows "getNextStep t = (t\<lparr>currentStep := Num (i + 1)\<rparr>, None)"
  using assms by (auto simp: getNextStep_def Let_def plus_one_def element_at_def)

text \<open>
  C4. Five steps, the third of which fails during \<open>execute\<close> (it throws, returns
  something that is not a Promise, or its Promise rejects): \<open>execute\<close> calls steps 1, 2
  and 3 and stops; an \<open>onError\<close> callback is registered, as \<open>execute\<close> requires. A later
  \<open>resume\<close>, during which steps 3 and 4 succeed, calls step 3 again with the context it
  was given the first time, then steps 4 and 5, whatever step 5 does. The context of
  step 4 is the initial context merged with what steps 1, 2 and 3 resolved with, each
  once.
\<close>

theorem resume_reruns_failed_step:
  assumes "steps t = [s1, s2, s3, s4, s5]"
    and "currentStep t = Undefined"
    and "callbacks_onError t \<noteq> None"
    and "s1 w c0 = Returns (APromise (Fulfilled r1))"
    and "s2 w (c0 ++ object_or_empty r1) = Returns (APromise (Fulfilled r2))"
    and "step_fails (s3 w (c0 ++ object_or_empty r1 ++ object_or_empty r2))"
    and "s3 w' (c0 ++ object_or_empty r1 ++ object_or_empty r2) = Returns (APromise (Fulfilled r3))"
    and "s4 w' (c0 ++ object_or_empty r1 ++ object_or_empty r2 ++ object_or_empty r3)
           = Returns (APromise (Fulfilled r4))"
  shows "step_calls (trace (fst (execute JSON_stringify t (Some c0) w)))
           = step_calls (trace t)
             @ [(0, c0),
                (1, c0 ++ object_or_empty r1),
                (2, c0 ++ object_or_empty r1 ++ object_or_empty r2)]
       \<and> snd (execute JSON_stringify t (Some c0) w) = None
       \<and> step_calls (trace (fst (resume JSON_stringify (fst (execute JSON_stringify t (Some c0) w))
                                   suppressWarning w')))
           = step_calls (trace (fst (execute JSON_stringify t (Some c0) w)))
             @ [(2, c0 ++ object_or_empty r1 ++ object_or_empty r2),
                (3, c0 ++ object_or_empty r1 ++ object_or_empty r2 ++ object_or_empty r3),
                (4, c0 ++ object_or_empty r1 ++ object_or_empty r2 ++ object_or_empty r3
                       ++ object_or_empty r4)]"
proof -
  define c1 where "c1 = c0 ++ object_or_empty r1"
  define c2 where "c2 = c1 ++ object_or_empty r2"
  define c3 where "c3 = c2 ++ object_or_empty r3"
  define c4 where "c4 = c3 ++ object_or_empty r4"
  note cs = c1_def c2_def c3_def c4_def
  text \<open>The run of \<open>execute\<close>.\<close>
  define a0 where "a0 = t\<lparr>this_context := c0\<rparr>"
  define a1 where "a1 = a0\<lparr>currentStep := Num 0, trace := trace t @ [StepCalled 0 c0], this_context := c1\<rparr>"
  define a2 where "a2 = a1\<lparr>currentStep := Num 1, trace := trace a1 @ [StepCalled 1 c1], this_context := c2\<rparr>"
  have run0: "runNextStep JSON_stringify a0 w = catch_handleStepError (runNextStep JSON_stringify a1 w)"
    by (subst runNextStep_resolved [where ?t1.0 = "a0\<lparr>currentStep := Num 0\<rparr>" and step = s1 and r = r1])
       (simp_all add: a0_def a1_def assms getNextStep_first position_def cs)
  have run1: "runNextStep JSON_stringify a1 w = catch_handleStepError (runNextStep JSON_stringify a2 w)"
    by (subst runNextStep_resolved [where ?t1.0 = "a1\<lparr>currentStep := Num 1\<rparr>" and step = s2 and r = r2])
       (simp_all add: a0_def a1_def a2_def assms getNextStep_at [where i = 0] position_def cs)
  have next2: "getNextStep a2 = (a2\<lparr>currentStep := Num 2\<rparr>, Some s3)"
    by (simp add: a0_def a1_def a2_def assms getNextStep_at [where i = 1])
  have "step_fails (s3 w (this_context (a2\<lparr>currentStep := Num 2\<rparr>)))"
    using assms(6) by (simp add: a2_def cs)
  moreover have "callbacks_onError a2 \<noteq> None"
    using assms(3) by (simp add: a0_def a1_def a2_def)
  ultimately obtain evs where evs: "step_calls evs = []"
    and run2: "catch_handleStepError (runNextStep JSON_stringify a2 w) =
                 (a2\<lparr>currentStep := Num 2, trace := trace a2 @ [StepCalled 2 c2] @ evs,
                     resumedBeforeNextTick := False\<rparr>, None)"
    using runNextStep_failed [OF next2, of w JSON_stringify] by (auto simp: position_def a2_def)
  define t1 where "t1 = a2\<lparr>currentStep := Num 2, trace := trace a2 @ [StepCalled 2 c2] @ evs,
                           resumedBeforeNextTick := False\<rparr>"
  have "\<not> at_least (currentStep t) 0"
    using assms(2) by (simp add: at_least_def)
  then have "execute JSON_stringify t (Some c0) w = runNextStep JSON_stringify a0 w"
    using assms(3) by (auto simp: execute_def a0_def)
  then have ex: "execute JSON_stringify t (Some c0) w = (t1, None)"
    by (simp add: run0 run1 run2 t1_def catch_handleStepError_returned)
  have calls1: "step_calls (trace t1) = step_calls (trace t) @ [(0, c0), (1, c1), (2, c2)]"
    by (simp add: t1_def a2_def a1_def a0_def step_calls_append evs)
  text \<open>The run of \<open>resume\<close>.\<close>
  define b0 where "b0 = t1\<lparr>trace := trace t1 @ (case callbacks_onResume t1 of None \<Rightarrow> []
                                                    | Some callback \<Rightarrow> [OnResumeCalled callback]),
                           currentStep := Num 1\<rparr>"
  define b1 where "b1 = b0\<lparr>currentStep := Num 2, trace := trace b0 @ [StepCalled 2 c2], this_context := c3\<rparr>"
  define b2 where "b2 = b1\<lparr>currentStep := Num 3, trace := trace b1 @ [StepCalled 3 c3], this_context := c4\<rparr>"
  have steps_b0: "steps b0 = [s1, s2, s3, s4, s5]" and ctx_b0: "this_context b0 = c2"
    by (simp_all add: b0_def t1_def a2_def a1_def a0_def assms)
  have flag: "\<not> resumedBeforeNextTick t1" and cur: "currentStep t1 = Num 2"
    by (simp_all add: t1_def)
  have res: "resume JSON_stringify t1 suppressWarning w' = runNextStep JSON_stringify b0 w'"
    by (cases "callbacks_onResume t1") (simp_all add: resume_def Let_def minus_one_def b0_def flag cur)
  have r0: "runNextStep JSON_stringify b0 w' = catch_handleStepError (runNextStep JSON_stringify b1 w')"
    by (subst runNextStep_resolved [where ?t1.0 = "b0\<lparr>currentStep := Num 2\<rparr>" and step = s3 and r = r3])
       (simp_all add: steps_b0 ctx_b0 b1_def b0_def [THEN arg_cong, of currentStep] assms
                      getNextStep_at [where i = 1] position_def cs)
  have r1: "runNextStep JSON_stringify b1 w' = catch_handleStepError (runNextStep JSON_stringify b2 w')"
    by (subst runNextStep_resolved [where ?t1.0 = "b1\<lparr>currentStep := Num 3\<rparr>" and step = s4 and r = r4])
       (simp_all add: steps_b0 ctx_b0 b1_def b2_def assms getNextStep_at [where i = 2] position_def cs)
  have "getNextStep b2 = (b2\<lparr>currentStep := Num 4\<rparr>, Some s5)"
    using getNextStep_at [of b2 3] by (simp add: steps_b0 b1_def b2_def)
  then have "step_calls (trace (fst (catch_handleStepError (runNextStep JSON_stringify b2 w'))))
               = step_calls (trace b2) @ [(4, c4)]"
    using runNextStep_last [of b2 "b2\<lparr>currentStep := Num 4\<rparr>" s5 4 JSON_stringify w']
    by (simp add: steps_b0 b1_def b2_def position_def)
  then have "step_calls (trace (fst (resume JSON_stringify t1 suppressWarning w')))
               = step_calls (trace b2) @ [(4, c4)]"
    by (simp add: res r0 r1 catch_handleStepError_step_calls)
  moreover have "step_calls (trace b2) @ [(4, c4)] = step_calls (trace t1) @ [(2, c2), (3, c3), (4, c4)]"
    by (cases "callbacks_onResume t1") (simp_all add: b2_def b1_def b0_def step_calls_append)
  ultimately show ?thesis
    using ex calls1 by (simp add: cs)
qed

lemma forEach_step_functions: "forEach_step (map Function fs) i = None"
  by (induction fs arbitrary: i) simp_all

lemma functions_of_functions: "functions_of (map Function fs) = fs"
  by (induction fs) simp_all

lemma new_transaction_constructed:
  "fs \<noteq> [] \<Longrightarrow> Transaction JSON_stringify (Array (map Function fs)) = Inr (new_transaction fs)"
  by (simp add: Transaction_def new_transaction_def forEach_step_functions functions_of_functions)


lemma ordinal_1: "ordinal 1 = ''1st''"
  by (simp add: ordinal_def indicator_def string_of_nat.simps [of "Suc 0"])

text \<open>
  C10. \<open>resume\<close> on a transaction on which \<open>execute\<close> was never called throws no
  usage error: \<open>currentStep\<close> goes from \<open>undefined\<close> to \<open>NaN\<close>, no step is called,
  and the \<open>onResume\<close> and \<open>onSuccess\<close> callbacks are called if they are registered.
  The only exception \<open>resume\<close> can then throw is one thrown by the \<open>onSuccess\<close>
  callback.
\<close>

theorem resume_before_execute:
  assumes "currentStep t = Undefined" and "\<not> resumedBeforeNextTick t"
  shows "resume JSON_stringify t suppressWarning w =
           (t\<lparr>currentStep := NaN,
               trace := trace t
                 @ (case callbacks_onResume t of None \<Rightarrow> [] | Some callback \<Rightarrow> [OnResumeCalled callback])
                 @ (case callbacks_onSuccess t of None \<Rightarrow> [] | Some (callback, throws) \<Rightarrow> [OnSuccessCalled callback])\<rparr>,
            (case callbacks_onSuccess t of None \<Rightarrow> None | Some (callback, throws) \<Rightarrow> throws w))"
  using assms
  by (cases t)
     (auto simp: resume_def runNextStep.simps getNextStep_def minus_one_def plus_one_def
                 element_at_def afterTransactionIsComplete_def Let_def
           split: option.splits)

theorem resume_before_execute_witness:
  "currentStep two_steps = Undefined \<and> \<not> resumedBeforeNextTick two_steps
   \<and> resume (\<lambda>v. v) two_steps None () =
        (two_steps\<lparr>currentStep := NaN, trace := [OnSuccessCalled ''done'']\<rparr>, None)"
  using resume_before_execute [of two_steps "\<lambda>v. v" None "()"]
  by (simp add: two_steps_def new_transaction_def onSuccess_def onError_def)

text \<open>
  C9. A transaction is single-use. The first \<open>execute\<close> sets \<open>currentStep\<close> to a
  number that is at least 0; \<open>resume\<close> and the registration methods keep it so; and
  in such a state \<open>execute\<close> throws "Transaction is already in progress" and changes
  nothing. So \<open>execute\<close> still throws after the last step has completed and
  \<open>onSuccess\<close> was called.
\<close>

theorem transaction_single_use:
  assumes "callbacks_onError t \<noteq> None"
  shows "(currentStep t = Undefined \<longrightarrow>
            at_least (currentStep (fst (execute JSON_stringify t c w))) 0
            \<and> callbacks_onError (fst (execute JSON_stringify t c w)) \<noteq> None)
       \<and> (at_least (currentStep t) 0 \<longrightarrow>
            at_least (currentStep (fst (resume JSON_stringify t suppressWarning w))) 0
            \<and> callbacks_onError (fst (resume JSON_stringify t suppressWarning w)) \<noteq> None
            \<and> at_least (currentStep (onSuccess callback1 t)) 0
            \<and> at_least (currentStep (onResume callback2 t)) 0
            \<and> at_least (currentStep (onError callback3 t)) 0
            \<and> at_least (currentStep (onSpecificError RegExp pattern callback4 t)) 0
            \<and> execute JSON_stringify t c w =
                (t, Some (new_Error (''Transaction is already in progress. To resume the transaction, ''
                                     @ ''use the `resume` method instead of `execute`''))))"
proof (intro conjI impI)
  assume u: "currentStep t = Undefined"
  then have n: "\<not> at_least (currentStep t) 0"
    by (simp add: at_least_def)
  show "at_least (currentStep (fst (execute JSON_stringify t c w))) 0"
    using assms u n by (simp add: execute_def runNextStep_started)
  show "callbacks_onError (fst (execute JSON_stringify t c w)) \<noteq> None"
    using assms by (simp add: execute_def runNextStep_onError)
next
  assume s: "at_least (currentStep t) 0"
  have m: "at_least (minus_one (currentStep t)) (- 1)"
    using s by (simp add: at_least_def minus_one_def split: js_number.splits)
  show "at_least (currentStep (fst (resume JSON_stringify t suppressWarning w))) 0"
    using s m by (auto simp: resume_def Let_def runNextStep_started split: option.splits)
  show "callbacks_onError (fst (resume JSON_stringify t suppressWarning w)) \<noteq> None"
    using assms by (auto simp: resume_def Let_def runNextStep_onError split: option.splits)
  show "at_least (currentStep (onSuccess callback1 t)) 0" using s by (simp add: onSuccess_def)
  show "at_least (currentStep (onResume callback2 t)) 0" using s by (simp add: onResume_def)
  show "at_least (currentStep (onError callback3 t)) 0" using s by (simp add: onError_def)
  show "at_least (currentStep (onSpecificError RegExp pattern callback4 t)) 0"
    using s by (simp add: onSpecificError_def Let_def)
  show "execute JSON_stringify t c w =
          (t, Some (new_Error (''Transaction is already in progress. To resume the transaction, ''
                               @ ''use the `resume` method instead of `execute`'')))"
    using s assms by (auto simp: execute_def)
qed

lemma two_steps_execute:
  "execute (\<lambda>v. v) two_steps None () =
     (two_steps\<lparr>currentStep := Num 2,
                trace := [StepCalled 0 Map.empty, StepCalled 1 Map.empty, OnSuccessCalled ''done'']\<rparr>,
      None)"
  by (simp add: two_steps_def new_transaction_def onSuccess_def onError_def resolves_with_def
                execute_def runNextStep.simps handleStepSuccess.simps getNextStep_def plus_one_def
                element_at_def position_def at_least_def afterTransactionIsComplete_def
                catch_handleStepError_def object_or_empty_def Let_def)

theorem transaction_single_use_witness:
  "callbacks_onError two_steps \<noteq> None \<and> currentStep two_steps = Undefined
   \<and> fst (execute (\<lambda>v. v) two_steps None ()) =
        two_steps\<lparr>currentStep := Num 2,
                  trace := [StepCalled 0 Map.empty, StepCalled 1 Map.empty, OnSuccessCalled ''done'']\<rparr>
   \<and> at_least (currentStep (fst (execute (\<lambda>v. v) two_steps None ()))) 0
   \<and> execute (\<lambda>v. v) (fst (execute (\<lambda>v. v) two_steps None ())) None () =
        (fst (execute (\<lambda>v. v) two_steps None ()),
         Some (new_Error ''Transaction is already in progress. To resume the transaction, use the `resume` method instead of `execute`''))"
proof -
  have a: "callbacks_onError two_steps \<noteq> None" and b: "currentStep two_steps = Undefined"
    by (simp_all add: two_steps_def new_transaction_def onSuccess_def onError_def)
  have c: "at_least (currentStep (fst (execute (\<lambda>v. v) two_steps None ()))) 0
           \<and> callbacks_onError (fst (execute (\<lambda>v. v) two_steps None ())) \<noteq> None"
    using transaction_single_use [OF a, of "\<lambda>v. v" None "()"] b by blast
  then have d: "execute (\<lambda>v. v) (fst (execute (\<lambda>v. v) two_steps None ())) None () =
        (fst (execute (\<lambda>v. v) two_steps None ()),
         Some (new_Error (''Transaction is already in progress. To resume the transaction, ''
                                     @ ''use the `resume` method instead of `execute`'')))"
    using transaction_single_use [of "fst (execute (\<lambda>v. v) two_steps None ())" "\<lambda>v. v" None "()"]
    by blast
  show ?thesis using a b c d two_steps_execute by simp
qed

section \<open>From a failing step to the error callbacks\<close>

lemma error_calls_append: "error_calls (xs @ ys) = error_calls xs @ error_calls ys"
  by (induction xs rule: error_calls.induct) simp_all

lemma error_calls_specific:
  "error_calls (map (\<lambda>c. OnSpecificErrorCalled c e) cs) = map (\<lambda>c. OnSpecificErrorCalled c e) cs"
  by (induction cs) simp_all

lemma set_error_calls:
  "OnSpecificErrorCalled c e \<in> set (error_calls evs) \<longleftrightarrow> OnSpecificErrorCalled c e \<in> set evs"
  by (induction evs rule: error_calls.induct) auto

lemma getNextStep_next:
  assumes "steps t = done @ step # rest"
    and "currentStep t = Num (int (length done) - 1) \<or> (done = [] \<and> currentStep t = Undefined)"
  shows "getNextStep t = (t\<lparr>currentStep := Num (int (length done))\<rparr>, Some step)"
  using assms by (auto simp: getNextStep_def Let_def plus_one_def element_at_def nth_append)

text \<open>
  The step at the position after \<open>done\<close> is the next one, the steps \<open>before\<close> resolve
  and the step \<open>failing\<close> fails with \<open>e\<close>: \<open>handleStepError\<close> is called with \<open>e\<close>, the
  transaction then being \<open>t2\<close>. The error thrown by the first step that \<open>runNextStep\<close>
  calls is the exception of \<open>runNextStep\<close> itself.
\<close>

lemma runNextStep_failing_step:
  assumes "steps t = done @ before @ failing # after"
    and "currentStep t = Num (int (length done) - 1) \<or> (done = [] \<and> currentStep t = Undefined)"
    and "context_after before w (this_context t) = Some c'"
    and "step_failure JSON_stringify (failing w c') = Some e"
    and "callbacks_onError t \<noteq> None"
  shows "\<exists>t2 new. (if before = [] \<and> has_thrown (failing w c')
                    then runNextStep JSON_stringify t w = (t2, Some e)
                    else runNextStep JSON_stringify t w = (fst (handleStepError t2 e), None))
           \<and> trace t2 = trace t @ new \<and> error_calls new = []
           \<and> steps t2 = steps t
           \<and> currentStep t2 = Num (int (length done + length before))
           \<and> callbacks_onSpecificErrors t2 = callbacks_onSpecificErrors t
           \<and> callbacks_onError t2 = callbacks_onError t"
  using assms
proof (induction before arbitrary: t "done")
  case Nil
  let ?t1 = "t\<lparr>currentStep := Num (int (length done))\<rparr>"
  let ?t2 = "?t1\<lparr>trace := trace ?t1 @ [StepCalled (position (currentStep ?t1)) (this_context ?t1)]\<rparr>"
  have c': "c' = this_context t"
    using Nil.prems(3) by simp
  have nxt: "getNextStep t = (?t1, Some failing)"
    using getNextStep_next [of t "done" failing after] Nil.prems(1,2) by simp
  have handled: "handleStepError ?t2 e = (fst (handleStepError ?t2 e), None)"
  proof -
    have "callbacks_onError ?t2 \<noteq> None"
      using Nil.prems(5) by simp
    from handleStepError_handled [OF this, of e] show ?thesis
      by auto
  qed
  have "if has_thrown (failing w c')
        then runNextStep JSON_stringify t w = (?t2, Some e)
        else runNextStep JSON_stringify t w = (fst (handleStepError ?t2 e), None)"
  proof (cases "failing w c'")
    case (Throws error)
    then show ?thesis
      using Nil.prems(4)
      by (subst runNextStep.simps) (simp add: nxt c' Let_def has_thrown_def step_failure_def)
  next
    case (Returns ret)
    show ?thesis
    proof (cases ret)
      case (NonPromise v)
      then have "runNextStep JSON_stringify t w = handleStepError ?t2 e"
        using Returns Nil.prems(4)
        by (subst runNextStep.simps) (simp add: nxt c' Let_def step_failure_def)
      then show ?thesis
        using handled Returns by (simp add: has_thrown_def)
    next
      case (APromise p)
      then have p: "p = Rejected e"
        using Returns Nil.prems(4) by (cases p) (simp_all add: step_failure_def)
      have "runNextStep JSON_stringify t w = catch_handleStepError (?t2, Some e)"
        using Returns APromise p
        by (subst runNextStep.simps) (simp add: nxt c' Let_def)
      then show ?thesis
        using Returns by (simp add: has_thrown_def catch_handleStepError_def)
    qed
  qed
  moreover have "trace ?t2 = trace t @ [StepCalled (position (currentStep ?t1)) (this_context ?t1)]"
    and "error_calls [StepCalled (position (currentStep ?t1)) (this_context ?t1)] = []"
    and "steps ?t2 = steps t" and "currentStep ?t2 = Num (int (length done + length ([] :: ('a, 'b) step list)))"
    and "callbacks_onSpecificErrors ?t2 = callbacks_onSpecificErrors t"
    and "callbacks_onError ?t2 = callbacks_onError t"
    by simp_all
  ultimately show ?case
    by (intro exI [of _ ?t2] exI [of _ "[StepCalled (position (currentStep ?t1)) (this_context ?t1)]"])
       simp
next
  case (Cons step rest)
  let ?t1 = "t\<lparr>currentStep := Num (int (length done))\<rparr>"
  let ?called = "StepCalled (position (currentStep ?t1)) (this_context ?t1)"
  obtain r where r: "step w (this_context t) = Returns (APromise (Fulfilled r))"
    and after_r: "context_after rest w (this_context t ++ object_or_empty r) = Some c'"
    using Cons.prems(3)
    by (auto split: outcome.splits returned.splits promise.splits)
  let ?t3 = "?t1\<lparr>trace := trace ?t1 @ [?called],
                 this_context := this_context ?t1 ++ object_or_empty r\<rparr>"
  have nxt: "getNextStep t = (?t1, Some step)"
    using getNextStep_next [of t "done" step "rest @ failing # after"] Cons.prems(1,2) by simp
  have run: "runNextStep JSON_stringify t w = catch_handleStepError (runNextStep JSON_stringify ?t3 w)"
    using runNextStep_resolved [OF nxt, of w r JSON_stringify] r by simp
  have "\<exists>t2 new. (if rest = [] \<and> has_thrown (failing w c')
                   then runNextStep JSON_stringify ?t3 w = (t2, Some e)
                   else runNextStep JSON_stringify ?t3 w = (fst (handleStepError t2 e), None))
           \<and> trace t2 = trace ?t3 @ new \<and> error_calls new = []
           \<and> steps t2 = steps ?t3
           \<and> currentStep t2 = Num (int (length (done @ [step]) + length rest))
           \<and> callbacks_onSpecificErrors t2 = callbacks_onSpecificErrors ?t3
           \<and> callbacks_onError t2 = callbacks_onError ?t3"
  proof (rule Cons.IH)
    show "steps ?t3 = (done @ [step]) @ rest @ failing # after"
      using Cons.prems(1) by simp
    show "currentStep ?t3 = Num (int (length (done @ [step])) - 1)
            \<or> (done @ [step] = [] \<and> currentStep ?t3 = Undefined)"
      by simp
    show "context_after rest w (this_context ?t3) = Some c'"
      using after_r by simp
    show "step_failure JSON_stringify (failing w c') = Some e"
      by (rule Cons.prems(4))
    show "callbacks_onError ?t3 \<noteq> None"
      using Cons.prems(5) by simp
  qed
  then obtain t2 new where
    inner: "if rest = [] \<and> has_thrown (failing w c')
            then runNextStep JSON_stringify ?t3 w = (t2, Some e)
            else runNextStep JSON_stringify ?t3 w = (fst (handleStepError t2 e), None)"
    and t2: "trace t2 = trace ?t3 @ new" "error_calls new = []" "steps t2 = steps ?t3"
      "currentStep t2 = Num (int (length (done @ [step]) + length rest))"
      "callbacks_onSpecificErrors t2 = callbacks_onSpecificErrors ?t3"
      "callbacks_onError t2 = callbacks_onError ?t3"
    by blast
  have "runNextStep JSON_stringify t w = (fst (handleStepError t2 e), None)"
    using inner by (auto simp: run catch_handleStepError_def split: if_splits)
  moreover have "trace t2 = trace t @ (?called # new)" and "error_calls (?called # new) = []"
    using t2(1,2) by simp_all
  moreover have "steps t2 = steps t" and "currentStep t2 = Num (int (length done + length (step # rest)))"
    and "callbacks_onSpecificErrors t2 = callbacks_onSpecificErrors t"
    and "callbacks_onError t2 = callbacks_onError t"
    using t2(3-6) by simp_all
  ultimately show ?case
    by (intro exI [of _ t2] exI [of _ "?called # new"]) simp
qed

text \<open>What \<open>handleStepError\<close> adds to the trace at a step.\<close>

lemma handleStepError_at_step:
  assumes "currentStep t = Num (int n)" and "n < length (steps t)"
    and "callbacks_onError t = Some general"
  shows "trace (fst (handleStepError t e)) =
           trace t @
           (if map fst (filter (\<lambda>(callback, pattern). pattern (message e)) (callbacks_onSpecificErrors t)) = []
            then [OnErrorCalled general
                    (e\<lparr>message := ''Error in '' @ ordinal (int n + 1) @ '' step: '' @ message e\<rparr>)]
            else map (\<lambda>callback. OnSpecificErrorCalled callback
                        (e\<lparr>message := ''Error in '' @ ordinal (int n + 1) @ '' step: '' @ message e\<rparr>))
                     (map fst (filter (\<lambda>(callback, pattern). pattern (message e))
                                      (callbacks_onSpecificErrors t))))"
proof -
  have "currentStepText t = ordinal (int n + 1) @ '' step''"
    using assms(1,2) by (simp add: currentStepText_def at_least_def plus_one_def)
  then show ?thesis
    using assms(3) by (simp add: handleStepError_def findErrorCallback_def Let_def)
qed

text \<open>
  A step fails inside a call of \<open>runNextStep\<close>, and not by throwing as the first step
  called: the callbacks are called as \<open>findErrorCallback\<close> chooses them on the message of
  the error, with the error whose message has the prefix.
\<close>

lemma runNextStep_error_calls:
  assumes "steps t = done @ before @ failing # after"
    and "currentStep t = Num (int (length done) - 1) \<or> (done = [] \<and> currentStep t = Undefined)"
    and "context_after before w (this_context t) = Some c'"
    and "step_failure JSON_stringify (failing w c') = Some e"
    and "before = [] \<longrightarrow> \<not> has_thrown (failing w c')"
    and "callbacks_onError t = Some general"
  shows "\<exists>new. trace (fst (runNextStep JSON_stringify t w)) = trace t @ new
           \<and> snd (runNextStep JSON_stringify t w) = None
           \<and> error_calls new =
               (if map fst (filter (\<lambda>(callback, pattern). pattern (message e)) (callbacks_onSpecificErrors t)) = []
                then [OnErrorCalled general
                        (e\<lparr>message := ''Error in '' @ ordinal (int (length done + length before) + 1)
                                       @ '' step: '' @ message e\<rparr>)]
                else map (\<lambda>callback. OnSpecificErrorCalled callback
                            (e\<lparr>message := ''Error in '' @ ordinal (int (length done + length before) + 1)
                                           @ '' step: '' @ message e\<rparr>))
                         (map fst (filter (\<lambda>(callback, pattern). pattern (message e))
                                          (callbacks_onSpecificErrors t))))"
proof -
  let ?e = "e\<lparr>message := ''Error in '' @ ordinal (int (length done + length before) + 1)
                           @ '' step: '' @ message e\<rparr>"
  let ?matching = "map fst (filter (\<lambda>(callback, pattern). pattern (message e)) (callbacks_onSpecificErrors t))"
  let ?called = "if ?matching = [] then [OnErrorCalled general ?e]
                 else map (\<lambda>callback. OnSpecificErrorCalled callback ?e) ?matching"
  have "callbacks_onError t \<noteq> None"
    using assms(6) by simp
  from runNextStep_failing_step [OF assms(1-4) this]
  obtain t2 new where run: "runNextStep JSON_stringify t w = (fst (handleStepError t2 e), None)"
    and t2: "trace t2 = trace t @ new" "error_calls new = []" "steps t2 = steps t"
      "currentStep t2 = Num (int (length done + length before))"
      "callbacks_onSpecificErrors t2 = callbacks_onSpecificErrors t"
      "callbacks_onError t2 = callbacks_onError t"
    using assms(5) by (auto split: if_splits)
  have "length done + length before < length (steps t2)"
    using assms(1) t2(3) by simp
  then have "trace (fst (handleStepError t2 e)) = trace t2 @ ?called"
    using handleStepError_at_step [OF t2(4), of general e] assms(6) t2(5,6) by simp
  then have "trace (fst (runNextStep JSON_stringify t w)) = trace t @ (new @ ?called)"
    by (simp add: run t2(1))
  moreover have "error_calls (new @ ?called) = ?called"
    by (cases "?matching = []") (simp_all add: error_calls_append t2(2) error_calls_specific del: map_map)
  moreover have "snd (runNextStep JSON_stringify t w) = None"
    by (simp add: run)
  ultimately show ?thesis
    by blast
qed

lemma execute_error_calls:
  assumes "steps t = before @ failing # after"
    and "currentStep t = Undefined"
    and "context_after before w c = Some c'"
    and "step_failure JSON_stringify (failing w c') = Some e"
    and "before = [] \<longrightarrow> \<not> has_thrown (failing w c')"
    and "callbacks_onError t = Some general"
  shows "\<exists>new. trace (fst (execute JSON_stringify t (Some c) w)) = trace t @ new
           \<and> snd (execute JSON_stringify t (Some c) w) = None
           \<and> error_calls new =
               (if map fst (filter (\<lambda>(callback, pattern). pattern (message e)) (callbacks_onSpecificErrors t)) = []
                then [OnErrorCalled general
                        (e\<lparr>message := ''Error in '' @ ordinal (int (length before) + 1)
                                       @ '' step: '' @ message e\<rparr>)]
                else map (\<lambda>callback. OnSpecificErrorCalled callback
                            (e\<lparr>message := ''Error in '' @ ordinal (int (length before) + 1)
                                           @ '' step: '' @ message e\<rparr>))
                         (map fst (filter (\<lambda>(callback, pattern). pattern (message e))
                                          (callbacks_onSpecificErrors t))))"
proof -
  have ex: "execute JSON_stringify t (Some c) w = runNextStep JSON_stringify (t\<lparr>this_context := c\<rparr>) w"
    using assms(2,6) by (simp add: execute_def at_least_def)
  have "steps (t\<lparr>this_context := c\<rparr>) = [] @ before @ failing # after"
    and "currentStep (t\<lparr>this_context := c\<rparr>) = Num (int (length ([] :: ('a, 'b) step list)) - 1)
           \<or> (([] :: ('a, 'b) step list) = [] \<and> currentStep (t\<lparr>this_context := c\<rparr>) = Undefined)"
    and "context_after before w (this_context (t\<lparr>this_context := c\<rparr>)) = Some c'"
    and "callbacks_onError (t\<lparr>this_context := c\<rparr>) = Some general"
    using assms by simp_all
  from runNextStep_error_calls [OF this(1-3) assms(4,5) this(4)]
  show ?thesis
    unfolding ex by (simp split del: if_split cong: if_cong)
qed

lemma resume_error_calls:
  fixes t :: "('w, 'c, 'v) transaction"
  assumes "steps t = done @ before @ failing # after"
    and "currentStep t = Num (int (length done))"
    and "\<not> resumedBeforeNextTick t \<or> suppressWarning = Some ''Yes this is in test code''"
    and "context_after before w (this_context t) = Some c'"
    and "step_failure JSON_stringify (failing w c') = Some e"
    and "before = [] \<longrightarrow> \<not> has_thrown (failing w c')"
    and "callbacks_onError t = Some general"
  shows "\<exists>new. trace (fst (resume JSON_stringify t suppressWarning w)) = trace t @ new
           \<and> snd (resume JSON_stringify t suppressWarning w) = None
           \<and> error_calls new =
               (if map fst (filter (\<lambda>(callback, pattern). pattern (message e)) (callbacks_onSpecificErrors t)) = []
                then [OnErrorCalled general
                        (e\<lparr>message := ''Error in '' @ ordinal (int (length done + length before) + 1)
                                       @ '' step: '' @ message e\<rparr>)]
                else map (\<lambda>callback. OnSpecificErrorCalled callback
                            (e\<lparr>message := ''Error in '' @ ordinal (int (length done + length before) + 1)
                                           @ '' step: '' @ message e\<rparr>))
                         (map fst (filter (\<lambda>(callback, pattern). pattern (message e))
                                          (callbacks_onSpecificErrors t))))"
proof -
  define resumed :: "('c, 'v) event list" where
    "resumed = (case callbacks_onResume t of None \<Rightarrow> [] | Some callback \<Rightarrow> [OnResumeCalled callback])"
  define t2 where "t2 = t\<lparr>trace := trace t @ resumed, currentStep := Num (int (length done) - 1)\<rparr>"
  have res: "resume JSON_stringify t suppressWarning w = runNextStep JSON_stringify t2 w"
    using assms(2,3)
    by (cases "callbacks_onResume t") (auto simp: resume_def Let_def minus_one_def t2_def resumed_def)
  have quiet: "error_calls resumed = []"
    by (cases "callbacks_onResume t") (simp_all add: resumed_def)
  from runNextStep_error_calls
         [where t = t2 and ?done = "done" and before = before and failing = failing and after = after
            and w = w and c' = c' and e = e and JSON_stringify = JSON_stringify and general = general]
  obtain new where new: "trace (fst (runNextStep JSON_stringify t2 w)) = trace t2 @ new"
    "snd (runNextStep JSON_stringify t2 w) = None"
    "error_calls new =
               (if map fst (filter (\<lambda>(callback, pattern). pattern (message e)) (callbacks_onSpecificErrors t)) = []
                then [OnErrorCalled general
                        (e\<lparr>message := ''Error in '' @ ordinal (int (length done + length before) + 1)
                                       @ '' step: '' @ message e\<rparr>)]
                else map (\<lambda>callback. OnSpecificErrorCalled callback
                            (e\<lparr>message := ''Error in '' @ ordinal (int (length done + length before) + 1)
                                           @ '' step: '' @ message e\<rparr>))
                         (map fst (filter (\<lambda>(callback, pattern). pattern (message e))
                                          (callbacks_onSpecificErrors t))))"
    using assms by (auto simp: t2_def)
  have "trace (fst (resume JSON_stringify t suppressWarning w)) = trace t @ (resumed @ new)"
    unfolding res new(1) by (simp add: t2_def)
  moreover have "error_calls (resumed @ new) = error_calls new"
    by (simp add: error_calls_append quiet)
  ultimately show ?thesis
    using new(2,3) res by metis
qed

text \<open>
  The first step that \<open>execute\<close> calls throws: \<open>execute\<close> throws the error, and no
  callback has been called.
\<close>

lemma execute_first_step_throws:
  assumes "steps t = failing # after"
    and "currentStep t = Undefined"
    and "failing w c = Throws e"
    and "callbacks_onError t \<noteq> None"
  shows "execute JSON_stringify t (Some c) w =
           (t\<lparr>this_context := c, currentStep := Num 0, trace := trace t @ [StepCalled 0 c]\<rparr>, Some e)"
proof -
  have "getNextStep (t\<lparr>this_context := c\<rparr>) = (t\<lparr>this_context := c, currentStep := Num 0\<rparr>, Some failing)"
    using getNextStep_first [of "t\<lparr>this_context := c\<rparr>"] assms(1,2) by simp
  then have "runNextStep JSON_stringify (t\<lparr>this_context := c\<rparr>) w =
               (t\<lparr>this_context := c, currentStep := Num 0, trace := trace t @ [StepCalled 0 c]\<rparr>, Some e)"
    using assms(3) by (subst runNextStep.simps) (simp add: Let_def position_def)
  then show ?thesis
    using assms(2,4) by (cases "callbacks_onError t") (simp_all add: execute_def at_least_def)
qed

theorem resume_reruns_failed_step_witness:
  "steps five_steps =
     [resolves_with (TypeofObject [''step1'' \<mapsto> 1]), resolves_with TypeofOther, failing_once,
      resolves_with (TypeofObject [''step4'' \<mapsto> 4]), resolves_with TypeofOther]
   \<and> currentStep five_steps = Undefined
   \<and> callbacks_onError five_steps \<noteq> None
   \<and> step_fails (failing_once False [''initial'' \<mapsto> 0, ''step1'' \<mapsto> 1])
   \<and> step_calls (trace (fst (execute (\<lambda>v. []) five_steps (Some [''initial'' \<mapsto> 0]) False)))
       = [(0, [''initial'' \<mapsto> 0]),
          (1, [''initial'' \<mapsto> 0, ''step1'' \<mapsto> 1]),
          (2, [''initial'' \<mapsto> 0, ''step1'' \<mapsto> 1])]
   \<and> step_calls (trace (fst (resume (\<lambda>v. [])
                                (fst (execute (\<lambda>v. []) five_steps (Some [''initial'' \<mapsto> 0]) False))
                                None True)))
       = [(0, [''initial'' \<mapsto> 0]),
          (1, [''initial'' \<mapsto> 0, ''step1'' \<mapsto> 1]),
          (2, [''initial'' \<mapsto> 0, ''step1'' \<mapsto> 1]),
          (2, [''initial'' \<mapsto> 0, ''step1'' \<mapsto> 1]),
          (3, [''initial'' \<mapsto> 0, ''step1'' \<mapsto> 1, ''step3'' \<mapsto> 3]),
          (4, [''initial'' \<mapsto> 0, ''step1'' \<mapsto> 1, ''step3'' \<mapsto> 3, ''step4'' \<mapsto> 4])]"
proof -
  have s: "steps five_steps =
     [resolves_with (TypeofObject [''step1'' \<mapsto> 1]), resolves_with TypeofOther, failing_once,
      resolves_with (TypeofObject [''step4'' \<mapsto> 4]), resolves_with TypeofOther]"
    and u: "currentStep five_steps = Undefined"
    and e: "callbacks_onError five_steps \<noteq> None"
    and tr: "trace five_steps = []"
    by (simp_all add: five_steps_def new_transaction_def onError_def)
  have f: "step_fails (failing_once False [''initial'' \<mapsto> 0, ''step1'' \<mapsto> 1])"
    by (simp add: step_fails_def failing_once_def)
  have m: "[''initial'' \<mapsto> 0::nat] ++ [''step1'' \<mapsto> 1] = [''initial'' \<mapsto> 0, ''step1'' \<mapsto> 1]"
    "[''initial'' \<mapsto> 0::nat, ''step1'' \<mapsto> 1] ++ [''step3'' \<mapsto> 3]
       = [''initial'' \<mapsto> 0, ''step1'' \<mapsto> 1, ''step3'' \<mapsto> 3]"
    "[''initial'' \<mapsto> 0::nat, ''step1'' \<mapsto> 1, ''step3'' \<mapsto> 3] ++ [''step4'' \<mapsto> 4]
       = [''initial'' \<mapsto> 0, ''step1'' \<mapsto> 1, ''step3'' \<mapsto> 3, ''step4'' \<mapsto> 4]"
    by simp_all
  show ?thesis
    using resume_reruns_failed_step
            [where t = five_steps and w = False and w' = True
               and ?c0.0 = "[''initial'' \<mapsto> 0]"
               and ?s1.0 = "resolves_with (TypeofObject [''step1'' \<mapsto> 1])"
               and ?s2.0 = "resolves_with TypeofOther"
               and ?s3.0 = failing_once
               and ?s4.0 = "resolves_with (TypeofObject [''step4'' \<mapsto> 4])"
               and ?s5.0 = "resolves_with TypeofOther"
               and ?r1.0 = "TypeofObject [''step1'' \<mapsto> 1]"
               and ?r2.0 = TypeofOther
               and ?r3.0 = "TypeofObject [''step3'' \<mapsto> 3]"
               and ?r4.0 = "TypeofObject [''step4'' \<mapsto> 4]"
               and JSON_stringify = "\<lambda>v. []" and suppressWarning = None]
          s u e f
    by (simp add: tr resolves_with_def failing_once_def object_or_empty_def m)
qed





text \<open>
  C5 does not hold as stated. The pattern \<open>'boom'\<close> is registered and the only step
  rejects with the message \<open>boom\<close>: the callback of the pattern is called, with the
  message \<open>Error in 1st step: boom\<close>, although the pattern \<open>^boom$\<close> does not match
  that prefixed message. The pattern was tested against the message before the prefix
  was added.
\<close>

theorem specific_pattern_prefixed_message_counterexample:
  "callbacks_onSpecificErrors boom = [(''specific'', literal_RegExp ''^boom$'')]
   \<and> execute (\<lambda>v. v) boom None () =
        (boom\<lparr>currentStep := Num 0,
               trace := [StepCalled 0 Map.empty,
                         OnSpecificErrorCalled ''specific'' (new_Error ''Error in 1st step: boom'')]\<rparr>,
         None)
   \<and> \<not> literal_RegExp ''^boom$'' ''Error in 1st step: boom''
   \<and> literal_RegExp ''^boom$'' ''boom''"
proof -
  have "execute (\<lambda>v. v) boom None () =
        (boom\<lparr>currentStep := Num 0,
               trace := [StepCalled 0 Map.empty,
                         OnSpecificErrorCalled ''specific'' (new_Error ''Error in 1st step: boom'')]\<rparr>,
         None)"
    by (simp add: boom_def new_transaction_def onSpecificError_def onError_def execute_def
                  at_least_def runNextStep.simps getNextStep_def element_at_def position_def
                  catch_handleStepError_def handleStepError_def findErrorCallback_def
                  currentStepText_def plus_one_def ordinal_1 literal_RegExp_def new_Error_def Let_def)
  then show ?thesis
    by (simp add: boom_def new_transaction_def onSpecificError_def onError_def literal_RegExp_def)
qed

lemma specific_call_chosen:
  "OnSpecificErrorCalled callback x
     \<in> set (if map fst (filter (\<lambda>(callback, pattern). pattern m) specs) = []
            then [OnErrorCalled general e']
            else map (\<lambda>callback. OnSpecificErrorCalled callback e')
                     (map fst (filter (\<lambda>(callback, pattern). pattern m) specs)))
   \<longleftrightarrow> (\<exists>pattern. (callback, pattern) \<in> set specs \<and> pattern m) \<and> x = e'"
  by (auto simp: image_iff filter_empty_conv)

text \<open>
  C5, amended. A step fails in a call of \<open>execute\<close> or of \<open>resume\<close>, after the steps
  that the call ran before it (if any) have resolved: its Promise rejects, it returns
  something that is not a Promise, or it throws, not as the first step called. The
  callback of an \<open>onSpecificError\<close> pattern is called exactly when the pattern matches
  the message of the error as the step failed with it, before \<open>Error in <label>:\<close> is
  put in front of it; the error the callback is given carries the prefixed message. The
  pattern registered for a string \<open>s\<close> is \<open>new RegExp('^' + s + '$')\<close>; the pattern
  registered for a RegExp is that RegExp.
\<close>

theorem specific_pattern_original_message:
  "(steps t = done @ before @ failing # after
      \<and> context_after before w c = Some c'
      \<and> step_failure JSON_stringify (failing w c') = Some e
      \<and> (before = [] \<longrightarrow> \<not> has_thrown (failing w c'))
      \<and> callbacks_onError t \<noteq> None
      \<and> done = [] \<and> currentStep t = Undefined
    \<longrightarrow> (OnSpecificErrorCalled callback x
           \<in> set (drop (length (trace t)) (trace (fst (execute JSON_stringify t (Some c) w))))
         \<longleftrightarrow> (\<exists>pattern. (callback, pattern) \<in> set (callbacks_onSpecificErrors t)
                        \<and> pattern (message e))
             \<and> x = e\<lparr>message := ''Error in '' @ ordinal (int (length done + length before) + 1)
                                   @ '' step: '' @ message e\<rparr>))
   \<and> (steps t = done @ before @ failing # after
      \<and> context_after before w c = Some c'
      \<and> step_failure JSON_stringify (failing w c') = Some e
      \<and> (before = [] \<longrightarrow> \<not> has_thrown (failing w c'))
      \<and> callbacks_onError t \<noteq> None
      \<and> currentStep t = Num (int (length done)) \<and> this_context t = c
      \<and> (\<not> resumedBeforeNextTick t \<or> suppressWarning = Some ''Yes this is in test code'')
    \<longrightarrow> (OnSpecificErrorCalled callback x
           \<in> set (drop (length (trace t)) (trace (fst (resume JSON_stringify t suppressWarning w))))
         \<longleftrightarrow> (\<exists>pattern. (callback, pattern) \<in> set (callbacks_onSpecificErrors t)
                        \<and> pattern (message e))
             \<and> x = e\<lparr>message := ''Error in '' @ ordinal (int (length done + length before) + 1)
                                   @ '' step: '' @ message e\<rparr>))
   \<and> callbacks_onSpecificErrors (onSpecificError RegExp (AString s) registered t')
       = callbacks_onSpecificErrors t' @ [(registered, RegExp (''^'' @ s @ ''$''))]
   \<and> callbacks_onSpecificErrors (onSpecificError RegExp (ARegExp r) registered t')
       = callbacks_onSpecificErrors t' @ [(registered, r)]"
proof (intro conjI impI)
  let ?e = "e\<lparr>message := ''Error in '' @ ordinal (int (length done + length before) + 1)
                           @ '' step: '' @ message e\<rparr>"
  let ?chosen = "(\<exists>pattern. (callback, pattern) \<in> set (callbacks_onSpecificErrors t)
                      \<and> pattern (message e)) \<and> x = ?e"
  {
    assume a: "steps t = done @ before @ failing # after
      \<and> context_after before w c = Some c'
      \<and> step_failure JSON_stringify (failing w c') = Some e
      \<and> (before = [] \<longrightarrow> \<not> has_thrown (failing w c'))
      \<and> callbacks_onError t \<noteq> None
      \<and> done = [] \<and> currentStep t = Undefined"
    then obtain general where g: "callbacks_onError t = Some general"
      by auto
    have "steps t = before @ failing # after" and "currentStep t = Undefined"
      and "context_after before w c = Some c'"
      and "step_failure JSON_stringify (failing w c') = Some e"
      and "before = [] \<longrightarrow> \<not> has_thrown (failing w c')"
      using a by simp_all
    from execute_error_calls [OF this g]
    obtain new where new: "trace (fst (execute JSON_stringify t (Some c) w)) = trace t @ new"
      and calls: "error_calls new =
               (if map fst (filter (\<lambda>(callback, pattern). pattern (message e)) (callbacks_onSpecificErrors t)) = []
                then [OnErrorCalled general
                        (e\<lparr>message := ''Error in '' @ ordinal (int (length before) + 1)
                                       @ '' step: '' @ message e\<rparr>)]
                else map (\<lambda>callback. OnSpecificErrorCalled callback
                            (e\<lparr>message := ''Error in '' @ ordinal (int (length before) + 1)
                                           @ '' step: '' @ message e\<rparr>))
                         (map fst (filter (\<lambda>(callback, pattern). pattern (message e))
                                          (callbacks_onSpecificErrors t))))"
      by blast
    have d: "int (length done + length before) = int (length before)"
      using a by simp
    have "OnSpecificErrorCalled callback x \<in> set new
            \<longleftrightarrow> OnSpecificErrorCalled callback x \<in> set (error_calls new)"
      by (simp add: set_error_calls)
    also have "\<dots> \<longleftrightarrow> ?chosen"
      unfolding calls d by (rule specific_call_chosen)
    finally show "OnSpecificErrorCalled callback x
           \<in> set (drop (length (trace t)) (trace (fst (execute JSON_stringify t (Some c) w))))
         \<longleftrightarrow> ?chosen"
      by (simp add: new)
  }
  {
    assume a: "steps t = done @ before @ failing # after
      \<and> context_after before w c = Some c'
      \<and> step_failure JSON_stringify (failing w c') = Some e
      \<and> (before = [] \<longrightarrow> \<not> has_thrown (failing w c'))
      \<and> callbacks_onError t \<noteq> None
      \<and> currentStep t = Num (int (length done)) \<and> this_context t = c
      \<and> (\<not> resumedBeforeNextTick t \<or> suppressWarning = Some ''Yes this is in test code'')"
    then obtain general where g: "callbacks_onError t = Some general"
      by auto
    have "steps t = done @ before @ failing # after" and "currentStep t = Num (int (length done))"
      and "\<not> resumedBeforeNextTick t \<or> suppressWarning = Some ''Yes this is in test code''"
      and "context_after before w (this_context t) = Some c'"
      and "step_failure JSON_stringify (failing w c') = Some e"
      and "before = [] \<longrightarrow> \<not> has_thrown (failing w c')"
      using a by simp_all
    from resume_error_calls [OF this g]
    obtain new where new: "trace (fst (resume JSON_stringify t suppressWarning w)) = trace t @ new"
      and calls: "error_calls new =
               (if map fst (filter (\<lambda>(callback, pattern). pattern (message e)) (callbacks_onSpecificErrors t)) = []
                then [OnErrorCalled general ?e]
                else map (\<lambda>callback. OnSpecificErrorCalled callback ?e)
                         (map fst (filter (\<lambda>(callback, pattern). pattern (message e))
                                          (callbacks_onSpecificErrors t))))"
      by blast
    have "OnSpecificErrorCalled callback x \<in> set new
            \<longleftrightarrow> OnSpecificErrorCalled callback x \<in> set (error_calls new)"
      by (simp add: set_error_calls)
    also have "\<dots> \<longleftrightarrow> ?chosen"
      unfolding calls by (rule specific_call_chosen)
    finally show "OnSpecificErrorCalled callback x
           \<in> set (drop (length (trace t)) (trace (fst (resume JSON_stringify t suppressWarning w))))
         \<longleftrightarrow> ?chosen"
      by (simp add: new)
  }
qed (simp_all add: onSpecificError_def)

lemma boom_callbacks:
  "steps boom = [\<lambda>w c. Returns (APromise (Rejected (new_Error ''boom'')))]"
  "callbacks_onSpecificErrors boom = [(''specific'', literal_RegExp ''^boom$'')]"
  "callbacks_onError boom = Some ''general''"
  "currentStep boom = Undefined"
  "trace boom = []"
  by (simp_all add: boom_def new_transaction_def onSpecificError_def onError_def)

lemma boom_execute:
  "execute (\<lambda>v. v) boom (Some Map.empty) () =
        (boom\<lparr>currentStep := Num 0,
               trace := [StepCalled 0 Map.empty,
                         OnSpecificErrorCalled ''specific'' (new_Error ''Error in 1st step: boom'')]\<rparr>,
         None)"
  by (simp add: boom_def new_transaction_def onSpecificError_def onError_def execute_def
                at_least_def runNextStep.simps getNextStep_def element_at_def position_def
                catch_handleStepError_def handleStepError_def findErrorCallback_def
                currentStepText_def plus_one_def ordinal_1 literal_RegExp_def new_Error_def Let_def)

theorem specific_pattern_original_message_witness:
  "callbacks_onSpecificErrors boom = [(''specific'', literal_RegExp ''^boom$'')]
   \<and> literal_RegExp ''^boom$'' ''boom''
   \<and> OnSpecificErrorCalled ''specific'' (new_Error ''Error in 1st step: boom'')
       \<in> set (trace (fst (execute (\<lambda>v. v) boom (Some Map.empty) ())))
   \<and> OnSpecificErrorCalled ''specific'' (new_Error ''Error in 1st step: boom'')
       \<in> set (drop (length (trace (fst (execute (\<lambda>v. v) boom (Some Map.empty) ()))))
                   (trace (fst (resume (\<lambda>v. v) (fst (execute (\<lambda>v. v) boom (Some Map.empty) ()))
                                  None ()))))
   \<and> callbacks_onSpecificErrors
         (onSpecificError literal_RegExp (AString ''boom'') ''specific''
            (onError (Some ''general'')
               (new_transaction [\<lambda>w c. Returns (APromise (Rejected (new_Error ''boom'')))])
             :: (unit, string, string) transaction))
       = [(''specific'', literal_RegExp ''^boom$'')]"
proof -
  let ?failing = "\<lambda>w c. Returns (APromise (Rejected (new_Error ''boom''))) :: (string, string resolution) outcome"
  let ?paused = "fst (execute (\<lambda>v. v) boom (Some Map.empty) ())"
  let ?x = "new_Error ''Error in 1st step: boom''"
  let ?t0 = "onError (Some ''general'') (new_transaction [?failing]) :: (unit, string, string) transaction"
  have m: "literal_RegExp ''^boom$'' ''boom''"
    by (simp add: literal_RegExp_def)
  have chosen: "(\<exists>pattern. (''specific'', pattern) \<in> set (callbacks_onSpecificErrors boom)
                     \<and> pattern (message (new_Error ''boom'')))
                \<and> ?x = (new_Error ''boom'')
                          \<lparr>message := ''Error in '' @ ordinal (int (length ([] :: (unit, string) step list)
                                                                + length ([] :: (unit, string) step list)) + 1)
                                       @ '' step: '' @ message (new_Error ''boom'')\<rparr>"
    using m by (simp add: boom_callbacks new_Error_def ordinal_1)
  have paused: "steps ?paused = [] @ [] @ ?failing # []" "callbacks_onError ?paused \<noteq> None"
    "currentStep ?paused = Num (int (length ([] :: (unit, string) step list)))"
    "this_context ?paused = Map.empty" "\<not> resumedBeforeNextTick ?paused"
    "callbacks_onSpecificErrors ?paused = callbacks_onSpecificErrors boom"
    by (simp_all add: boom_execute boom_callbacks)
       (simp_all add: boom_def new_transaction_def onSpecificError_def onError_def)
  have f: "step_failure (\<lambda>v. v) (?failing () Map.empty) = Some (new_Error ''boom'')"
    and n: "([] :: (unit, string) step list) = [] \<longrightarrow> \<not> has_thrown (?failing () Map.empty)"
    and b: "context_after ([] :: (unit, string) step list) () Map.empty = Some Map.empty"
    by (simp_all add: step_failure_def has_thrown_def)
  note inst = specific_pattern_original_message
               [where ?done = "[]" and before = "[]" and failing = ?failing and after = "[]"
                  and w = "()" and c = Map.empty and c' = Map.empty and e = "new_Error ''boom''"
                  and JSON_stringify = "\<lambda>v. v" and callback = "''specific''" and x = ?x
                  and suppressWarning = None and RegExp = literal_RegExp and s = "''boom''"
                  and registered = "''specific''" and t' = ?t0]
  have first: "OnSpecificErrorCalled ''specific'' ?x
                 \<in> set (trace (fst (execute (\<lambda>v. v) boom (Some Map.empty) ())))"
    using inst [where t = boom] chosen f n b by (simp add: boom_callbacks)
  have second: "OnSpecificErrorCalled ''specific'' ?x
                  \<in> set (drop (length (trace ?paused)) (trace (fst (resume (\<lambda>v. v) ?paused None ()))))"
    using inst [where t = ?paused] chosen f n b paused by simp
  have third: "callbacks_onSpecificErrors (onSpecificError literal_RegExp (AString ''boom'') ''specific'' ?t0)
                 = [(''specific'', literal_RegExp ''^boom$'')]"
    using inst [where t = boom] by (simp add: new_transaction_def onError_def)
  show ?thesis
    using boom_callbacks(2) m first second third by blast
qed

section \<open>The composite message\<close>

text \<open>
  C1. The primary source rejects with \<open>Error(x)\<close>, the only secondary source rejects
  with \<open>Error(y)\<close> (both messages not empty, as \<open>'X'\<close> and \<open>'Y'\<close> are): \<open>get\<close>
  rejects with an error whose message is the header line followed by one line for the
  primary source and one for secondary source #1, in that order, whatever the verifier
  and the synchronizers are.
\<close>

theorem composite_message_two_failures:
  assumes "\<not> getInProgress this"
    and "primarySource_of (configuration this) = Some primary"
    and "primary w = Returns (APromise (Rejected (new_Error x)))"
    and "secondarySources (configuration this) = [secondary]"
    and "secondary w = Returns (APromise (Rejected (new_Error y)))"
    and "x \<noteq> []" and "y \<noteq> []"
  shows "fst (get JSON_stringify this w) =
           GetReturned (Rejected (new_Error
             (''The Really Determined Property Getter has failed.\<newline>''
              @ ''  - primary source failed because it was rejected with 'Error: '' @ x @ [CHR 0x27]
              @ ''\<newline>''
              @ ''  - secondary source #1 failed because it was rejected with 'Error: '' @ y @ [CHR 0x27]
              @ ''\<newline>'')))"
  using assms
  by (simp add: get_def get_begin_def Let_def promise_then_def promise_catch_def assertIsPromise_def
                toString_def new_Error_def nameError_def getFromSecondaries_def try_secondarySource_def maybeQuit_def push_def
                handleFinalError_def reportError_def string_of_nat.simps [of "Suc 0"])

theorem composite_message_two_failures_witness:
  "\<not> getInProgress two_failing_sources
   \<and> primarySource_of (configuration two_failing_sources) = Some (rejecting ''X'')
   \<and> secondarySources (configuration two_failing_sources) = [rejecting ''Y'']
   \<and> fst (get (\<lambda>v. v) two_failing_sources ()) =
           GetReturned (Rejected (new_Error
             ''The Really Determined Property Getter has failed.\<newline>  - primary source failed because it was rejected with 'Error: X'\<newline>  - secondary source #1 failed because it was rejected with 'Error: Y'\<newline>''))"
  using composite_message_two_failures
          [where this = two_failing_sources and primary = "rejecting ''X''" and secondary = "rejecting ''Y''"
             and w = "()" and x = "''X''" and y = "''Y''" and JSON_stringify = "\<lambda>v. v"]
  by (simp add: two_failing_sources_def new_ReallyDeterminedPropertyGetter_def secondarySource_def
                with_primarySource_def primarySource_def rejecting_def)

section \<open>Handlers and settled Promises\<close>

lemma promise_then_simps:
  "promise_then f (Fulfilled v, s) = f v s"
  "promise_then f (Rejected e, s) = (Rejected e, s)"
  "promise_then f (Pending, s) = (Pending, s)"
  by (simp_all add: promise_then_def)

lemma promise_catch_simps:
  "promise_catch h (Fulfilled v, s) = (Fulfilled v, s)"
  "promise_catch h (Rejected e, s) = h e s"
  "promise_catch h (Pending, s) = (Pending, s)"
  by (simp_all add: promise_catch_def)

section \<open>The calls of one \<open>get\<close>\<close>

lemma secondary_calls_append: "secondary_calls (xs @ ys) = secondary_calls xs @ secondary_calls ys"
  by (induction xs rule: secondary_calls.induct) simp_all

lemma synchronizer_calls_append:
  "synchronizer_calls (xs @ ys) = synchronizer_calls xs @ synchronizer_calls ys"
  by (induction xs rule: synchronizer_calls.induct) simp_all

lemma secondary_calls_member: "SecondarySourceCalled i \<in> set cs \<longleftrightarrow> i \<in> set (secondary_calls cs)"
  by (induction cs rule: secondary_calls.induct) auto

lemma try_secondarySource_closed:
  "closed p \<Longrightarrow> promise_catch (try_secondarySource JSON_stringify cfg w source index) p = p"
  by (cases p; cases "fst p")
     (simp_all add: closed_def promise_catch_def try_secondarySource_def maybeQuit_def)

lemma forEach_secondarySource_closed:
  "closed p \<Longrightarrow> forEach_secondarySource JSON_stringify cfg w sources index p = p"
  by (induction sources arbitrary: index) (simp_all add: try_secondarySource_closed)

lemma forEach_secondarySource_append:
  "forEach_secondarySource JSON_stringify cfg w (xs @ ys) index p =
     forEach_secondarySource JSON_stringify cfg w ys (index + length xs)
       (forEach_secondarySource JSON_stringify cfg w xs index p)"
  by (induction xs arbitrary: index p) simp_all

section \<open>Synchronizers\<close>

text \<open>
  A synchronizer lets the chain of \<open>performSynchronizationWithPrimary\<close> go on to the next
  one when its Promise resolves, or when it fails and synchronization errors are ignored.
\<close>

lemma attach_synchronizer_Pending:
  "attach_synchronizer JSON_stringify cfg w v f index (Pending, s) = (Pending, s)"
  by (simp add: attach_synchronizer_def Let_def promise_then_def promise_catch_def)

lemma attach_synchronizer_Rejected:
  "\<not> ignoreSynchronizationErrors_of cfg \<Longrightarrow>
   \<exists>e'. attach_synchronizer JSON_stringify cfg w v f index (Rejected e, s) =
          (Rejected e', s\<lparr>quitter_doQuit := True\<rparr>)"
  by (simp add: attach_synchronizer_def Let_def promise_then_def promise_catch_def nameError_def
                quitOnCondition_def quit_def)

lemma forEach_synchronizer_Pending:
  "forEach_synchronizer JSON_stringify cfg w v fs index (Pending, s) = (Pending, s)"
  by (induction fs arbitrary: index) (simp_all add: attach_synchronizer_Pending)

lemma forEach_synchronizer_Rejected:
  "\<not> ignoreSynchronizationErrors_of cfg \<Longrightarrow>
   \<exists>e' s'. forEach_synchronizer JSON_stringify cfg w v fs index (Rejected e, s) = (Rejected e', s')
            \<and> calls s' = calls s \<and> this_getInProgress s' = this_getInProgress s
            \<and> (fs \<noteq> [] \<or> quitter_doQuit s \<longrightarrow> quitter_doQuit s')"
proof (induction fs arbitrary: index e s)
  case Nil
  then show ?case by simp
next
  case (Cons f fs)
  obtain e' where a: "attach_synchronizer JSON_stringify cfg w v f index (Rejected e, s) =
          (Rejected e', s\<lparr>quitter_doQuit := True\<rparr>)"
    using attach_synchronizer_Rejected [OF Cons.prems] by blast
  show ?case
    using Cons.IH [OF Cons.prems, of "index + 1" e' "s\<lparr>quitter_doQuit := True\<rparr>"]
    by (auto simp: a)
qed

lemma stopped_closed: "stopped cfg p \<Longrightarrow> closed p"
  by (simp add: stopped_def closed_def split: promise.splits)

lemma attach_synchronizer_continues:
  "sync_continues cfg (f w v) \<Longrightarrow>
   attach_synchronizer JSON_stringify cfg w v f index (Fulfilled x, s) =
     (Fulfilled v, s\<lparr>calls := calls s @ [SynchronizerCalled index v]\<rparr>)"
  by (auto simp: sync_continues_def attach_synchronizer_def call_synchronizer_def Let_def
                 promise_then_def promise_catch_def nameError_def quitOnCondition_def
                 map_promise_def assertIsPromise_def
           split: outcome.splits returned.splits promise.splits)

lemma attach_synchronizer_stops:
  "\<not> sync_continues cfg (f w v) \<Longrightarrow>
   \<exists>r s'. attach_synchronizer JSON_stringify cfg w v f index (Fulfilled x, s) = (r, s')
          \<and> stopped cfg (r, s')
          \<and> calls s' = calls s @ [SynchronizerCalled index v]
          \<and> this_getInProgress s' = this_getInProgress s"
  by (auto simp: sync_continues_def attach_synchronizer_def call_synchronizer_def Let_def
                 promise_then_def promise_catch_def nameError_def quitOnCondition_def quit_def
                 map_promise_def assertIsPromise_def stopped_def
           split: outcome.splits returned.splits promise.splits)

lemma forEach_synchronizer_stopped:
  assumes "stopped cfg p"
  shows "stopped cfg (forEach_synchronizer JSON_stringify cfg w v fs index p)
         \<and> calls (snd (forEach_synchronizer JSON_stringify cfg w v fs index p)) = calls (snd p)
         \<and> this_getInProgress (snd (forEach_synchronizer JSON_stringify cfg w v fs index p))
             = this_getInProgress (snd p)"
proof (cases p)
  case (Pair r s)
  show ?thesis
  proof (cases r)
    case (Fulfilled x)
    then show ?thesis using assms Pair by (simp add: stopped_def)
  next
    case (Rejected e)
    then have i: "\<not> ignoreSynchronizationErrors_of cfg" and q: "quitter_doQuit s"
      using assms Pair by (simp_all add: stopped_def)
    obtain e' s' where "forEach_synchronizer JSON_stringify cfg w v fs index (Rejected e, s) = (Rejected e', s')"
      and "calls s' = calls s" and "this_getInProgress s' = this_getInProgress s"
      and "fs \<noteq> [] \<or> quitter_doQuit s \<longrightarrow> quitter_doQuit s'"
      using forEach_synchronizer_Rejected [OF i] by blast
    then show ?thesis
      using Pair Rejected i q by (simp add: stopped_def)
  next
    case Pending
    then show ?thesis
      using Pair by (simp add: forEach_synchronizer_Pending stopped_def)
  qed
qed

lemma forEach_synchronizer_calls:
  assumes "j \<le> length fs"
    and "\<forall>i<j. sync_continues cfg ((fs ! i) w v)"
    and "j < length fs \<longrightarrow> \<not> sync_continues cfg ((fs ! j) w v)"
  shows "calls (snd (forEach_synchronizer JSON_stringify cfg w v fs index (Fulfilled v, s)))
           = calls s @ map (\<lambda>i. SynchronizerCalled i v) [index ..< index + min (length fs) (j + 1)]
         \<and> this_getInProgress (snd (forEach_synchronizer JSON_stringify cfg w v fs index (Fulfilled v, s)))
             = this_getInProgress s
         \<and> (fst (forEach_synchronizer JSON_stringify cfg w v fs index (Fulfilled v, s)) = Fulfilled v
              \<and> quitter_doQuit (snd (forEach_synchronizer JSON_stringify cfg w v fs index (Fulfilled v, s)))
                  = quitter_doQuit s
            \<or> stopped cfg (forEach_synchronizer JSON_stringify cfg w v fs index (Fulfilled v, s)))"
  using assms
proof (induction fs arbitrary: index j s)
  case Nil
  then show ?case by simp
next
  case (Cons f fs)
  show ?case
  proof (cases j)
    case 0
    then have "\<not> sync_continues cfg (f w v)"
      using Cons.prems by simp
    then obtain r s' where a: "attach_synchronizer JSON_stringify cfg w v f index (Fulfilled v, s) = (r, s')"
      and st: "stopped cfg (r, s')"
      and c: "calls s' = calls s @ [SynchronizerCalled index v]"
      and g: "this_getInProgress s' = this_getInProgress s"
      using attach_synchronizer_stops
              [where cfg = cfg and f = f and w = w and v = v and JSON_stringify = JSON_stringify
                 and index = index and x = v and s = s]
      by blast
    show ?thesis
      using forEach_synchronizer_stopped [OF st, of JSON_stringify w v fs "index + 1"] 0
      by (simp add: a c g upt_rec)
  next
    case (Suc k)
    then have cont: "sync_continues cfg (f w v)"
      using Cons.prems by auto
    have k: "k \<le> length fs" "\<forall>i<k. sync_continues cfg ((fs ! i) w v)"
      "k < length fs \<longrightarrow> \<not> sync_continues cfg ((fs ! k) w v)"
      using Cons.prems Suc by auto
    define m where "m = min (length fs) (k + 1)"
    have n: "min (length (f # fs)) (j + 1) = Suc m"
      by (simp add: m_def Suc)
    have u: "[index ..< index + Suc m] = index # [index + 1 ..< index + 1 + m]"
      by (simp add: upt_conv_Cons)
    have a: "attach_synchronizer JSON_stringify cfg w v f index (Fulfilled v, s) =
               (Fulfilled v, s\<lparr>calls := calls s @ [SynchronizerCalled index v]\<rparr>)"
      using cont by (simp add: attach_synchronizer_continues)
    show ?thesis
      using Cons.IH [OF k, where index = "index + 1"
                       and s = "s\<lparr>calls := calls s @ [SynchronizerCalled index v]\<rparr>"]
      unfolding n u
      by (simp add: a m_def)
  qed
qed

section \<open>Secondary sources\<close>

lemma first_stop: "\<exists>j\<le>n::nat. (\<forall>i<j. P i) \<and> (j < n \<longrightarrow> \<not> P j)"
proof (induction n)
  case 0
  then show ?case by simp
next
  case (Suc n)
  then obtain j where j: "j \<le> n" "\<forall>i<j. P i" "j < n \<longrightarrow> \<not> P j"
    by blast
  show ?case
  proof (cases "j < n \<or> \<not> P n")
    case True
    then show ?thesis
      using j by (intro exI [of _ j]) (auto simp: le_less)
  next
    case False
    then have "j = n" and "P n" using j by auto
    then have "\<forall>i<Suc n. P i" using j by (auto simp: less_Suc_eq)
    then show ?thesis by (intro exI [of _ "Suc n"]) simp
  qed
qed

lemma failed_attempt:
  assumes "source_fails cfg (Returns r)"
  shows "\<exists>e. promise_catch (nameError name)
                (promise_then (verifyValue JSON_stringify cfg) (assertIsPromise JSON_stringify r, s))
              = (Rejected e, s)"
  using assms
  by (auto simp: source_fails_def accepted_by_def promise_catch_def promise_then_def nameError_def
                 verifyValue_def assertIsPromise_def
           split: returned.splits promise.splits option.splits)

lemma accepted_attempt:
  assumes "accepted_by cfg v"
  shows "promise_catch (nameError name)
           (promise_then (verifyValue JSON_stringify cfg)
              (assertIsPromise JSON_stringify (APromise (Fulfilled v)), s))
           = (Fulfilled v, s)"
  using assms
  by (auto simp: accepted_by_def promise_catch_def promise_then_def verifyValue_def assertIsPromise_def
           split: option.splits)

lemma try_secondarySource_fails:
  assumes "source_fails cfg (source w)" and "\<not> quitter_doQuit s"
  shows "\<exists>e' s'. try_secondarySource JSON_stringify cfg w source index e s = (Rejected e', s')
           \<and> \<not> quitter_doQuit s'
           \<and> calls s' = calls s @ [SecondarySourceCalled index]
           \<and> this_getInProgress s' = this_getInProgress s"
proof (cases "source w")
  case (Throws error)
  then show ?thesis
    using assms by (simp add: try_secondarySource_def maybeQuit_def push_def Let_def)
next
  case (Returns r)
  let ?s2 = "(push (AnError e) s)\<lparr>calls := calls (push (AnError e) s) @ [SecondarySourceCalled index]\<rparr>"
  obtain e' where "promise_catch (nameError (''secondary source #'' @ string_of_nat (index + 1)))
                (promise_then (verifyValue JSON_stringify cfg) (assertIsPromise JSON_stringify r, ?s2))
              = (Rejected e', ?s2)"
    using failed_attempt assms(1) Returns by metis
  then show ?thesis
    using assms Returns
    by (simp add: try_secondarySource_def maybeQuit_def push_def Let_def promise_then_simps)
qed

lemma forEach_secondarySource_fail:
  assumes "\<forall>source\<in>set sources. source_fails cfg (source w)" and "\<not> quitter_doQuit s"
  shows "\<exists>e' s'. forEach_secondarySource JSON_stringify cfg w sources index (Rejected e, s) = (Rejected e', s')
           \<and> \<not> quitter_doQuit s'
           \<and> calls s' = calls s @ map SecondarySourceCalled [index ..< index + length sources]
           \<and> this_getInProgress s' = this_getInProgress s"
  using assms
proof (induction sources arbitrary: index e s)
  case Nil
  then show ?case by simp
next
  case (Cons source sources)
  obtain e1 s1 where t: "try_secondarySource JSON_stringify cfg w source index e s = (Rejected e1, s1)"
    and q: "\<not> quitter_doQuit s1"
    and c: "calls s1 = calls s @ [SecondarySourceCalled index]"
    and g: "this_getInProgress s1 = this_getInProgress s"
    using try_secondarySource_fails [of cfg source w s JSON_stringify index e] Cons.prems by auto
  have rest: "\<forall>source\<in>set sources. source_fails cfg (source w)"
    using Cons.prems by simp
  have u: "[index ..< index + length (source # sources)] = index # [index + 1 ..< index + 1 + length sources]"
    using upt_conv_Cons [of index "index + Suc (length sources)"] by simp
  show ?case
    using Cons.IH [OF rest q, of "index + 1" e1]
    unfolding u by (auto simp: promise_catch_simps t c g)
qed

lemma try_secondarySource_accepted:
  assumes "source w = Returns (APromise (Fulfilled v))" and "accepted_by cfg v"
    and "\<not> quitter_doQuit s"
    and "j \<le> length (primarySourceSynchronizers cfg)"
    and "\<forall>i<j. sync_continues cfg ((primarySourceSynchronizers cfg ! i) w v)"
    and "j < length (primarySourceSynchronizers cfg)
           \<longrightarrow> \<not> sync_continues cfg ((primarySourceSynchronizers cfg ! j) w v)"
  shows "closed (try_secondarySource JSON_stringify cfg w source index e s)
         \<and> calls (snd (try_secondarySource JSON_stringify cfg w source index e s))
             = calls s @ [SecondarySourceCalled index]
               @ map (\<lambda>i. SynchronizerCalled i v)
                     [0 ..< min (length (primarySourceSynchronizers cfg)) (j + 1)]
         \<and> this_getInProgress (snd (try_secondarySource JSON_stringify cfg w source index e s))
             = this_getInProgress s
         \<and> (fst (try_secondarySource JSON_stringify cfg w source index e s) = Fulfilled v
            \<or> stopped cfg (try_secondarySource JSON_stringify cfg w source index e s))"
proof -
  let ?name = "''secondary source #'' @ string_of_nat (index + 1)"
  let ?s2 = "(push (AnError e) s)\<lparr>calls := calls (push (AnError e) s) @ [SecondarySourceCalled index]\<rparr>"
  let ?s3 = "push (ASuccess ?name v) ?s2"
  have t: "try_secondarySource JSON_stringify cfg w source index e s =
             forEach_synchronizer JSON_stringify cfg w v (primarySourceSynchronizers cfg) 0 (Fulfilled v, ?s3)"
    using assms(1,3) accepted_attempt [OF assms(2), of ?name JSON_stringify ?s2]
    by (simp add: try_secondarySource_def maybeQuit_def Let_def promise_then_simps recordSuccess_def
                  performSynchronizationWithPrimary_def)
  show ?thesis
    using forEach_synchronizer_calls [OF assms(4-6), of JSON_stringify 0 ?s3]
    unfolding t
    by (auto simp: push_def closed_def dest: stopped_closed)
qed

section \<open>What the handlers keep of \<open>getInProgress\<close>\<close>

lemma attach_synchronizer_getInProgress:
  "this_getInProgress (snd (attach_synchronizer JSON_stringify cfg w v f index p))
     = this_getInProgress (snd p)"
  by (cases p; cases "fst p"; cases "f w v")
     (auto simp: attach_synchronizer_def call_synchronizer_def Let_def promise_then_def
                 promise_catch_def nameError_def quitOnCondition_def quit_def map_promise_def
                 assertIsPromise_def
           split: returned.splits promise.splits)

lemma forEach_synchronizer_getInProgress:
  "this_getInProgress (snd (forEach_synchronizer JSON_stringify cfg w v fs index p))
     = this_getInProgress (snd p)"
  by (induction fs arbitrary: index p) (simp_all add: attach_synchronizer_getInProgress)

lemma try_secondarySource_getInProgress:
  "this_getInProgress (snd (try_secondarySource JSON_stringify cfg w source index e s))
     = this_getInProgress s"
  by (cases "source w")
     (auto simp: try_secondarySource_def maybeQuit_def push_def Let_def promise_then_def
                 promise_catch_def nameError_def verifyValue_def assertIsPromise_def recordSuccess_def
                 performSynchronizationWithPrimary_def forEach_synchronizer_getInProgress
           split: returned.splits promise.splits option.splits)

lemma forEach_secondarySource_getInProgress:
  "this_getInProgress (snd (forEach_secondarySource JSON_stringify cfg w sources index p))
     = this_getInProgress (snd p)"
proof (induction sources arbitrary: index p)
  case Nil
  then show ?case by simp
next
  case (Cons source sources)
  have "this_getInProgress (snd (promise_catch (try_secondarySource JSON_stringify cfg w source index) p))
          = this_getInProgress (snd p)"
    by (cases p; cases "fst p") (simp_all add: promise_catch_def try_secondarySource_getInProgress)
  then show ?case by (simp add: Cons.IH)
qed

section \<open>The run of \<open>getFromSecondaries\<close> up to the first accepted source\<close>

lemma getFromSecondaries_accepted:
  assumes "secondarySources cfg = failing @ accepted # later"
    and "\<forall>source\<in>set failing. source_fails cfg (source w)"
    and "accepted w = Returns (APromise (Fulfilled v))" and "accepted_by cfg v"
    and "\<not> quitter_doQuit s"
    and "j \<le> length (primarySourceSynchronizers cfg)"
    and "\<forall>i<j. sync_continues cfg ((primarySourceSynchronizers cfg ! i) w v)"
    and "j < length (primarySourceSynchronizers cfg)
           \<longrightarrow> \<not> sync_continues cfg ((primarySourceSynchronizers cfg ! j) w v)"
  shows "calls (snd (getFromSecondaries JSON_stringify cfg w e s))
           = calls s @ map SecondarySourceCalled [0 ..< length failing + 1]
             @ map (\<lambda>i. SynchronizerCalled i v)
                   [0 ..< min (length (primarySourceSynchronizers cfg)) (j + 1)]"
proof -
  obtain e1 s1 where f: "forEach_secondarySource JSON_stringify cfg w failing 0 (Rejected e, s) = (Rejected e1, s1)"
    and q: "\<not> quitter_doQuit s1"
    and c: "calls s1 = calls s @ map SecondarySourceCalled [0 ..< 0 + length failing]"
    using forEach_secondarySource_fail [OF assms(2,5), of JSON_stringify 0 e] by blast
  let ?p = "try_secondarySource JSON_stringify cfg w accepted (length failing) e1 s1"
  have t: "closed ?p"
    and tc: "calls (snd ?p) = calls s1 @ [SecondarySourceCalled (length failing)]
               @ map (\<lambda>i. SynchronizerCalled i v)
                     [0 ..< min (length (primarySourceSynchronizers cfg)) (j + 1)]"
    using try_secondarySource_accepted
            [where source = accepted and w = w and v = v and cfg = cfg and s = s1 and j = j
               and JSON_stringify = JSON_stringify and index = "length failing" and e = e1,
             OF assms(3,4) q assms(6-8)]
    by simp_all
  have "getFromSecondaries JSON_stringify cfg w e s = ?p"
    by (simp add: getFromSecondaries_def assms(1) forEach_secondarySource_append f promise_catch_simps
                  forEach_secondarySource_closed [OF t])
  then show ?thesis
    by (simp add: tc c)
qed

lemma get_tail_calls:
  "calls (snd (promise_catch (handleFinalError JSON_stringify)
                 (promise_catch (\<lambda>error s. (Rejected error, s\<lparr>this_getInProgress := False\<rparr>))
                    (promise_then (\<lambda>v s. (Fulfilled v, s\<lparr>this_getInProgress := False\<rparr>)) p))))
     = calls (snd p)"
  by (cases p; cases "fst p")
     (simp_all add: promise_catch_def promise_then_def handleFinalError_def push_def Let_def)

section \<open>The calls of \<open>get\<close>\<close>

lemma get_guarded:
  "getInProgress this \<or> primarySource_of (configuration this) = None \<Longrightarrow>
   snd (snd (get JSON_stringify this w)) = []"
  by (auto simp: get_def get_begin_def)

lemma get_calls_failed_primary:
  fixes this :: "('w, 'v) ReallyDeterminedPropertyGetter"
  assumes "\<not> getInProgress this"
    and "primarySource_of (configuration this) = Some primary"
    and "primary w = Returns r"
    and "source_fails (configuration this) (Returns r)"
  shows "\<exists>e. snd (snd (get JSON_stringify this w))
           = calls (snd (getFromSecondaries JSON_stringify (configuration this) w e
                           \<lparr>errorCatcher_callingEntityName = ''The Really Determined Property Getter'',
                            errorCatcher_results = [],
                            quitter_doQuit = False,
                            this_getInProgress = True,
                            calls = [PrimarySourceCalled]\<rparr>))"
proof -
  let ?s0 = "\<lparr>errorCatcher_callingEntityName = ''The Really Determined Property Getter'',
              errorCatcher_results = [],
              quitter_doQuit = False,
              this_getInProgress = True,
              calls = [PrimarySourceCalled]\<rparr> :: 'v run"
  obtain e where "promise_catch (nameError ''primary source'')
                (promise_then (verifyValue JSON_stringify (configuration this))
                   (assertIsPromise JSON_stringify r, ?s0))
              = (Rejected e, ?s0)"
    using failed_attempt [OF assms(4), of "''primary source''" JSON_stringify ?s0] by blast
  then show ?thesis
    using assms(1-3)
    by (intro exI [of _ e])
       (simp add: get_def get_begin_def Let_def get_tail_calls promise_catch_simps)
qed

lemma get_calls_other_primary:
  fixes this :: "('w, 'v) ReallyDeterminedPropertyGetter"
  assumes "\<not> getInProgress this"
    and "primarySource_of (configuration this) = Some primary"
    and "\<not> source_fails (configuration this) (primary w)"
  shows "snd (snd (get JSON_stringify this w)) = [PrimarySourceCalled]"
proof -
  let ?s0 = "\<lparr>errorCatcher_callingEntityName = ''The Really Determined Property Getter'',
              errorCatcher_results = [],
              quitter_doQuit = False,
              this_getInProgress = True,
              calls = [PrimarySourceCalled]\<rparr> :: 'v run"
  from assms(3) consider v where "primary w = Returns (APromise (Fulfilled v))"
      and "accepted_by (configuration this) v"
    | "primary w = Returns (APromise Pending)"
    by (auto simp: source_fails_def split: outcome.splits returned.splits promise.splits)
  then show ?thesis
  proof cases
    case 1
    then show ?thesis
      using assms(1,2) accepted_attempt [OF 1(2), of "''primary source''" JSON_stringify ?s0]
      by (simp add: get_def get_begin_def Let_def get_tail_calls promise_catch_simps)
  next
    case 2
    then show ?thesis
      using assms(1,2)
      by (simp add: get_def get_begin_def Let_def get_tail_calls promise_catch_simps
                    promise_then_simps assertIsPromise_def)
  qed
qed

lemma get_calls_thrown:
  assumes "\<not> getInProgress this"
    and "primarySource_of (configuration this) = Some primary"
    and "primary w = Throws e"
  shows "snd (snd (get JSON_stringify this w)) = [PrimarySourceCalled]"
  using assms by (simp add: get_def get_begin_def Let_def)

section \<open>When \<open>get\<close> clears \<open>getInProgress\<close>\<close>

lemma get_tail_getInProgress:
  assumes "this_getInProgress (snd p)"
  shows "fst (promise_catch (handleFinalError JSON_stringify)
                 (promise_catch (\<lambda>error s. (Rejected error, s\<lparr>this_getInProgress := False\<rparr>))
                    (promise_then (\<lambda>v s. (Fulfilled v, s\<lparr>this_getInProgress := False\<rparr>)) p)))
           = Pending
         \<longleftrightarrow> this_getInProgress
               (snd (promise_catch (handleFinalError JSON_stringify)
                 (promise_catch (\<lambda>error s. (Rejected error, s\<lparr>this_getInProgress := False\<rparr>))
                    (promise_then (\<lambda>v s. (Fulfilled v, s\<lparr>this_getInProgress := False\<rparr>)) p))))"
  using assms
  by (cases p; cases "fst p")
     (simp_all add: promise_catch_def promise_then_def handleFinalError_def push_def Let_def)

lemma get_returned:
  fixes this :: "('w, 'v) ReallyDeterminedPropertyGetter"
  assumes "\<not> getInProgress this"
    and "primarySource_of (configuration this) = Some primary"
    and "primary w = Returns r"
  shows "\<exists>p cs. get JSON_stringify this w = (GetReturned p, this\<lparr>getInProgress := (p = Pending)\<rparr>, cs)"
proof -
  let ?s0 = "\<lparr>errorCatcher_callingEntityName = ''The Really Determined Property Getter'',
              errorCatcher_results = [],
              quitter_doQuit = False,
              this_getInProgress = True,
              calls = [PrimarySourceCalled]\<rparr> :: 'v run"
  let ?p1 = "promise_then (verifyValue JSON_stringify (configuration this))
               (assertIsPromise JSON_stringify r, ?s0)"
  let ?p2 = "promise_catch (nameError ''primary source'') ?p1"
  let ?p3 = "promise_catch (getFromSecondaries JSON_stringify (configuration this) w) ?p2"
  have "snd ?p1 = ?s0"
    by (cases "assertIsPromise JSON_stringify r")
       (simp_all add: promise_then_simps verifyValue_def split: option.splits)
  then have "snd ?p2 = ?s0"
    by (cases ?p1; cases "fst ?p1") (simp_all add: promise_catch_simps nameError_def)
  then have "this_getInProgress (snd ?p3)"
    by (cases ?p2; cases "fst ?p2")
       (simp_all add: promise_catch_simps getFromSecondaries_def forEach_secondarySource_getInProgress)
  then show ?thesis
    using assms get_tail_getInProgress [of ?p3 JSON_stringify]
    by (simp add: get_def get_begin_def Let_def)
qed

lemma get_returned_cases:
  assumes "get JSON_stringify this w = (GetReturned p, this', cs)"
  shows "\<not> getInProgress this \<and> this' = this\<lparr>getInProgress := (p = Pending)\<rparr>"
proof -
  have g: "\<not> getInProgress this"
    using assms by (auto simp: get_def get_begin_def)
  then obtain primary where p: "primarySource_of (configuration this) = Some primary"
    using assms by (cases "primarySource_of (configuration this)") (auto simp: get_def get_begin_def)
  then obtain r where r: "primary w = Returns r"
    using assms g by (cases "primary w") (auto simp: get_def get_begin_def Let_def)
  show ?thesis
    using get_returned [OF g p r, of JSON_stringify] assms g by auto
qed

text \<open>
  C3. The secondary sources before position \<open>k\<close> fail and the source at position
  \<open>k\<close> resolves with a value that passes verification: no source after position \<open>k\<close>
  is called during that run of \<open>get\<close>, whatever the primary source does. When the
  primary source has failed, the secondary sources called are exactly those at positions
  1 to \<open>k\<close>, in that order. (Position \<open>k\<close> counted from 1 is index
  \<open>length failing\<close> counted from 0.)
\<close>

theorem later_secondary_sources_not_called:
  assumes "secondarySources (configuration this) = failing @ accepted # later"
    and "\<forall>source\<in>set failing. source_fails (configuration this) (source w)"
    and "accepted w = Returns (APromise (Fulfilled v))"
    and "accepted_by (configuration this) v"
  shows "(\<forall>i. length failing < i \<longrightarrow>
            SecondarySourceCalled i \<notin> set (snd (snd (get JSON_stringify this w))))
       \<and> (\<not> getInProgress this \<and> primarySource_of (configuration this) = Some primary
            \<and> primary w = Returns r \<and> source_fails (configuration this) (Returns r)
          \<longrightarrow> secondary_calls (snd (snd (get JSON_stringify this w))) = [0 ..< length failing + 1])"
proof -
  let ?cfg = "configuration this"
  let ?fs = "primarySourceSynchronizers ?cfg"
  let ?calls = "snd (snd (get JSON_stringify this w))"
  obtain j where j: "j \<le> length ?fs" "\<forall>i<j. sync_continues ?cfg ((?fs ! i) w v)"
    "j < length ?fs \<longrightarrow> \<not> sync_continues ?cfg ((?fs ! j) w v)"
    using first_stop [of "length ?fs" "\<lambda>i. sync_continues ?cfg ((?fs ! i) w v)"] by blast
  have sec: "secondary_calls (map (\<lambda>i. SynchronizerCalled i v) xs) = []" for xs :: "nat list"
    by (induction xs) simp_all
  have sec': "secondary_calls (map SecondarySourceCalled xs) = xs" for xs
    by (induction xs) simp_all
  have failed: "secondary_calls ?calls = [0 ..< length failing + 1]"
    if h: "\<not> getInProgress this" "primarySource_of ?cfg = Some p" "p w = Returns r'"
      "source_fails ?cfg (Returns r')" for p r'
  proof -
    obtain e where "?calls = calls (snd (getFromSecondaries JSON_stringify ?cfg w e
                           \<lparr>errorCatcher_callingEntityName = ''The Really Determined Property Getter'',
                            errorCatcher_results = [],
                            quitter_doQuit = False,
                            this_getInProgress = True,
                            calls = [PrimarySourceCalled]\<rparr>))"
      using get_calls_failed_primary [OF h] by blast
    then show ?thesis
      using getFromSecondaries_accepted [OF assms(1-4) _ j, where JSON_stringify = JSON_stringify]
      by (simp add: secondary_calls_append sec sec' del: upt_Suc)
  qed
  have "set (secondary_calls ?calls) \<subseteq> {0 ..< length failing + 1}"
  proof (cases "getInProgress this \<or> primarySource_of ?cfg = None")
    case True
    then show ?thesis by (simp add: get_guarded)
  next
    case False
    then obtain p where g: "\<not> getInProgress this" and p: "primarySource_of ?cfg = Some p"
      by auto
    show ?thesis
    proof (cases "source_fails ?cfg (p w)")
      case fails: True
      show ?thesis
      proof (cases "p w")
        case (Throws e)
        then show ?thesis by (simp add: get_calls_thrown [OF g p])
      next
        case (Returns r')
        then show ?thesis using failed [OF g p Returns] fails by simp
      qed
    next
      case False
      then show ?thesis by (simp add: get_calls_other_primary [OF g p])
    qed
  qed
  then have "\<forall>i. length failing < i \<longrightarrow> SecondarySourceCalled i \<notin> set ?calls"
    by (auto simp: secondary_calls_member)
  then show ?thesis
    using failed by blast
qed

lemma third_source_accepted_configuration:
  "secondarySources (configuration third_source_accepted)
     = [rejecting ''Y'', rejecting ''Z''] @ resolving ''good'' # [resolving ''never'']"
  "primarySourceSynchronizers (configuration third_source_accepted)
     = [resolving_synchronizer, rejecting_synchronizer ''nope'', resolving_synchronizer]"
  "primarySource_of (configuration third_source_accepted) = Some (rejecting ''X'')"
  "verifier (configuration third_source_accepted) = None"
  "\<not> ignoreSynchronizationErrors_of (configuration third_source_accepted)"
  "\<not> getInProgress third_source_accepted"
  by (simp_all add: third_source_accepted_def synchronizeWithPrimarySource_def secondarySource_def
                    with_primarySource_def primarySource_def new_ReallyDeterminedPropertyGetter_def)

theorem later_secondary_sources_not_called_witness:
  "secondarySources (configuration third_source_accepted)
     = [rejecting ''Y'', rejecting ''Z''] @ resolving ''good'' # [resolving ''never'']
   \<and> source_fails (configuration third_source_accepted) (rejecting ''Y'' ())
   \<and> source_fails (configuration third_source_accepted) (rejecting ''Z'' ())
   \<and> accepted_by (configuration third_source_accepted) ''good''
   \<and> source_fails (configuration third_source_accepted)
         (Returns (APromise (Rejected (new_Error ''X''))))
   \<and> SecondarySourceCalled 3 \<notin> set (snd (snd (get (\<lambda>v. v) third_source_accepted ())))
   \<and> secondary_calls (snd (snd (get (\<lambda>v. v) third_source_accepted ()))) = [0, 1, 2]"
proof -
  have f: "\<forall>source\<in>set [rejecting ''Y'', rejecting ''Z''].
             source_fails (configuration third_source_accepted) (source ())"
    and a: "accepted_by (configuration third_source_accepted) ''good''"
    and p: "source_fails (configuration third_source_accepted)
              (Returns (APromise (Rejected (new_Error ''X''))))"
    by (simp_all add: source_fails_def accepted_by_def rejecting_def
                      third_source_accepted_configuration)
  have u: "[0 ..< length [rejecting ''Y'' :: (unit, string) source, rejecting ''Z''] + 1] = [0, 1, 2]"
    by (simp add: upt_rec)
  show ?thesis
    using later_secondary_sources_not_called
            [where this = third_source_accepted and w = "()" and v = "''good''"
               and failing = "[rejecting ''Y'', rejecting ''Z'']" and accepted = "resolving ''good''"
               and later = "[resolving ''never'']" and primary = "rejecting ''X''"
               and r = "APromise (Rejected (new_Error ''X''))" and JSON_stringify = "\<lambda>v. v",
             OF third_source_accepted_configuration(1) f _ a]
          f a p third_source_accepted_configuration u
    by (simp add: resolving_def rejecting_def)
qed

text \<open>
  C2 does not hold as stated. A synchronizer and a secondary source are registered and
  the primary source resolves with \<open>good\<close>: \<open>get\<close> resolves with \<open>good\<close> and the only
  call made is the call of the primary source. The synchronizer is not called for a value
  that came from the primary source.
\<close>

theorem synchronizers_after_primary_counterexample:
  "primarySourceSynchronizers (configuration primary_accepted) = [resolving_synchronizer]
   \<and> get (\<lambda>v. v) primary_accepted () =
        (GetReturned (Fulfilled ''good''), primary_accepted, [PrimarySourceCalled])"
  by (simp add: primary_accepted_def synchronizeWithPrimarySource_def secondarySource_def
                with_primarySource_def primarySource_def new_ReallyDeterminedPropertyGetter_def
                resolving_def
                get_def get_begin_def Let_def promise_then_simps promise_catch_simps
                assertIsPromise_def verifyValue_def)

lemma get_accepts_primary:
  fixes this :: "('w, 'v) ReallyDeterminedPropertyGetter"
  assumes "\<not> getInProgress this"
    and "primarySource_of (configuration this) = Some primary"
    and "primary w = Returns (APromise (Fulfilled x))"
    and "accepted_by (configuration this) x"
  shows "get JSON_stringify this w = (GetReturned (Fulfilled x), this, [PrimarySourceCalled])"
proof -
  let ?s0 = "\<lparr>errorCatcher_callingEntityName = ''The Really Determined Property Getter'',
              errorCatcher_results = [],
              quitter_doQuit = False,
              this_getInProgress = True,
              calls = [PrimarySourceCalled]\<rparr> :: 'v run"
  have attempt: "promise_catch (nameError ''primary source'')
                   (promise_then (verifyValue JSON_stringify (configuration this))
                      (assertIsPromise JSON_stringify (APromise (Fulfilled x)), ?s0))
                 = (Fulfilled x, ?s0)"
    by (rule accepted_attempt [OF assms(4)])
  have same: "this\<lparr>getInProgress := False\<rparr> = this"
    using assms(1) by (cases this) simp
  show ?thesis
    using assms(1-3)
    by (simp add: get_def get_begin_def Let_def attempt same promise_then_simps promise_catch_simps)
qed

text \<open>
  C2, amended. The primary source has failed and a secondary source's value \<open>v\<close> is
  accepted: the synchronizers are called with \<open>v\<close>, one after the other in the order
  they were registered, up to and including the first one that does not let the chain go
  on (its Promise never settles, or it fails while synchronization errors are not
  ignored); all of them are called when there is no such synchronizer. Here \<open>j\<close> is the
  position of that first synchronizer, or the number of synchronizers. Whenever the
  value of the primary source is accepted, whatever the secondary sources and the
  synchronizers are, \<open>get\<close> resolves with it after calling the primary source only: no
  synchronizer is called.
\<close>

theorem synchronizers_called_for_secondary_value:
  "(\<not> getInProgress this
      \<and> primarySource_of (configuration this) = Some primary
      \<and> primary w = Returns r \<and> source_fails (configuration this) (Returns r)
      \<and> secondarySources (configuration this) = failing @ accepted # later
      \<and> (\<forall>source\<in>set failing. source_fails (configuration this) (source w))
      \<and> accepted w = Returns (APromise (Fulfilled v))
      \<and> accepted_by (configuration this) v
      \<and> j \<le> length (primarySourceSynchronizers (configuration this))
      \<and> (\<forall>i<j. sync_continues (configuration this)
                   ((primarySourceSynchronizers (configuration this) ! i) w v))
      \<and> (j < length (primarySourceSynchronizers (configuration this))
            \<longrightarrow> \<not> sync_continues (configuration this)
                   ((primarySourceSynchronizers (configuration this) ! j) w v))
    \<longrightarrow> synchronizer_calls (snd (snd (get JSON_stringify this w)))
          = map (\<lambda>i. (i, v))
                [0 ..< min (length (primarySourceSynchronizers (configuration this))) (j + 1)])
   \<and> (\<not> getInProgress this
      \<and> primarySource_of (configuration this) = Some primary
      \<and> primary w = Returns (APromise (Fulfilled x))
      \<and> accepted_by (configuration this) x
    \<longrightarrow> fst (get JSON_stringify this w) = GetReturned (Fulfilled x)
        \<and> snd (snd (get JSON_stringify this w)) = [PrimarySourceCalled]
        \<and> synchronizer_calls (snd (snd (get JSON_stringify this w))) = [])"
proof (intro conjI impI)
  have syn: "synchronizer_calls (map (\<lambda>i. SynchronizerCalled i v) xs) = map (\<lambda>i. (i, v)) xs"
    for xs :: "nat list"
    by (induction xs) simp_all
  have syn': "synchronizer_calls (map SecondarySourceCalled xs :: 'b call list) = []" for xs
    by (induction xs) simp_all
  assume a: "\<not> getInProgress this
      \<and> primarySource_of (configuration this) = Some primary
      \<and> primary w = Returns r \<and> source_fails (configuration this) (Returns r)
      \<and> secondarySources (configuration this) = failing @ accepted # later
      \<and> (\<forall>source\<in>set failing. source_fails (configuration this) (source w))
      \<and> accepted w = Returns (APromise (Fulfilled v))
      \<and> accepted_by (configuration this) v
      \<and> j \<le> length (primarySourceSynchronizers (configuration this))
      \<and> (\<forall>i<j. sync_continues (configuration this)
                   ((primarySourceSynchronizers (configuration this) ! i) w v))
      \<and> (j < length (primarySourceSynchronizers (configuration this))
            \<longrightarrow> \<not> sync_continues (configuration this)
                   ((primarySourceSynchronizers (configuration this) ! j) w v))"
  then have h: "\<not> getInProgress this" "primarySource_of (configuration this) = Some primary"
    "primary w = Returns r" "source_fails (configuration this) (Returns r)"
    and h': "secondarySources (configuration this) = failing @ accepted # later"
    "\<forall>source\<in>set failing. source_fails (configuration this) (source w)"
    "accepted w = Returns (APromise (Fulfilled v))"
    "accepted_by (configuration this) v"
    and hj: "j \<le> length (primarySourceSynchronizers (configuration this))"
    "\<forall>i<j. sync_continues (configuration this)
                   ((primarySourceSynchronizers (configuration this) ! i) w v)"
    "j < length (primarySourceSynchronizers (configuration this))
            \<longrightarrow> \<not> sync_continues (configuration this)
                   ((primarySourceSynchronizers (configuration this) ! j) w v)"
    by simp_all
  obtain e where "snd (snd (get JSON_stringify this w))
           = calls (snd (getFromSecondaries JSON_stringify (configuration this) w e
                           \<lparr>errorCatcher_callingEntityName = ''The Really Determined Property Getter'',
                            errorCatcher_results = [],
                            quitter_doQuit = False,
                            this_getInProgress = True,
                            calls = [PrimarySourceCalled]\<rparr>))"
    using get_calls_failed_primary [OF h] by blast
  then show "synchronizer_calls (snd (snd (get JSON_stringify this w)))
                  = map (\<lambda>i. (i, v))
                        [0 ..< min (length (primarySourceSynchronizers (configuration this))) (j + 1)]"
    using getFromSecondaries_accepted [OF h' _ hj, where JSON_stringify = JSON_stringify]
    by (simp add: synchronizer_calls_append syn syn' del: upt_Suc)
next
  assume b: "\<not> getInProgress this
      \<and> primarySource_of (configuration this) = Some primary
      \<and> primary w = Returns (APromise (Fulfilled x))
      \<and> accepted_by (configuration this) x"
  have "get JSON_stringify this w = (GetReturned (Fulfilled x), this, [PrimarySourceCalled])"
    by (rule get_accepts_primary [where primary = primary]) (use b in simp_all)
  then show "fst (get JSON_stringify this w) = GetReturned (Fulfilled x)"
    and "snd (snd (get JSON_stringify this w)) = [PrimarySourceCalled]"
    and "synchronizer_calls (snd (snd (get JSON_stringify this w))) = []"
    by simp_all
qed

lemma primary_accepted_configuration:
  "secondarySources (configuration primary_accepted) = [] @ resolving ''other'' # []"
  "primarySourceSynchronizers (configuration primary_accepted) = [resolving_synchronizer]"
  "primarySource_of (configuration primary_accepted) = Some (resolving ''good'')"
  "verifier (configuration primary_accepted) = None"
  "\<not> getInProgress primary_accepted"
  by (simp_all add: primary_accepted_def synchronizeWithPrimarySource_def secondarySource_def
                    with_primarySource_def primarySource_def new_ReallyDeterminedPropertyGetter_def)

lemma primary_only_configuration:
  "secondarySources (configuration primary_only) = []"
  "primarySourceSynchronizers (configuration primary_only) = [resolving_synchronizer]"
  "primarySource_of (configuration primary_only) = Some (resolving ''good'')"
  "verifier (configuration primary_only) = None"
  "\<not> getInProgress primary_only"
  by (simp_all add: primary_only_def synchronizeWithPrimarySource_def
                    with_primarySource_def primarySource_def new_ReallyDeterminedPropertyGetter_def)

theorem synchronizers_called_for_secondary_value_witness:
  "\<not> getInProgress third_source_accepted
   \<and> primarySource_of (configuration third_source_accepted) = Some (rejecting ''X'')
   \<and> source_fails (configuration third_source_accepted) (rejecting ''X'' ())
   \<and> sync_continues (configuration third_source_accepted) (resolving_synchronizer () ''good'')
   \<and> \<not> sync_continues (configuration third_source_accepted) (rejecting_synchronizer ''nope'' () ''good'')
   \<and> synchronizer_calls (snd (snd (get (\<lambda>v. v) third_source_accepted ())))
       = [(0, ''good''), (1, ''good'')]
   \<and> secondarySources (configuration primary_only) = []
   \<and> primarySourceSynchronizers (configuration primary_only) = [resolving_synchronizer]
   \<and> primarySource_of (configuration primary_only) = Some (resolving ''good'')
   \<and> accepted_by (configuration primary_only) ''good''
   \<and> fst (get (\<lambda>v. v) primary_only ()) = GetReturned (Fulfilled ''good'')
   \<and> synchronizer_calls (snd (snd (get (\<lambda>v. v) primary_only ()))) = []"
proof -
  let ?cfg = "configuration third_source_accepted"
  have f: "\<forall>source\<in>set [rejecting ''Y'', rejecting ''Z''].
             source_fails (configuration third_source_accepted) (source ())"
    and a: "accepted_by ?cfg ''good''"
    and p: "source_fails ?cfg (Returns (APromise (Rejected (new_Error ''X''))))"
    and c0: "sync_continues ?cfg (resolving_synchronizer () ''good'')"
    and c1: "\<not> sync_continues ?cfg (rejecting_synchronizer ''nope'' () ''good'')"
    by (simp_all add: source_fails_def accepted_by_def rejecting_def sync_continues_def
                      resolving_synchronizer_def rejecting_synchronizer_def
                      third_source_accepted_configuration)
  have j: "(1::nat) \<le> length (primarySourceSynchronizers ?cfg)"
    "\<forall>i<1::nat. sync_continues ?cfg ((primarySourceSynchronizers ?cfg ! i) () ''good'')"
    "(1::nat) < length (primarySourceSynchronizers ?cfg)
       \<longrightarrow> \<not> sync_continues ?cfg ((primarySourceSynchronizers ?cfg ! 1) () ''good'')"
    using c0 c1 by (simp_all add: third_source_accepted_configuration)
  have u: "[0 ..< min (length (primarySourceSynchronizers ?cfg)) (1 + 1)] = [0, 1]"
    by (simp add: third_source_accepted_configuration upt_rec)
  have r: "rejecting ''X'' () = Returns (APromise (Rejected (new_Error ''X'')) :: (string, string) returned)"
    and g: "resolving ''good'' () = Returns (APromise (Fulfilled ''good'') :: (string, string) returned)"
    by (simp_all add: rejecting_def resolving_def)
  have first: "synchronizer_calls (snd (snd (get (\<lambda>v. v) third_source_accepted ())))
                 = [(0, ''good''), (1, ''good'')]"
    using synchronizers_called_for_secondary_value
            [where this = third_source_accepted and w = "()" and v = "''good''"
               and failing = "[rejecting ''Y'', rejecting ''Z'']" and accepted = "resolving ''good''"
               and later = "[resolving ''never'']" and primary = "rejecting ''X''" and j = 1
               and r = "APromise (Rejected (new_Error ''X''))" and JSON_stringify = "\<lambda>v. v"]
          third_source_accepted_configuration(6,3,1) f g a j p r u
    by simp
  let ?cfg' = "configuration primary_only"
  have a': "accepted_by ?cfg' ''good''"
    by (simp add: accepted_by_def primary_only_configuration)
  have second: "fst (get (\<lambda>v. v) primary_only ()) = GetReturned (Fulfilled ''good'')
                 \<and> synchronizer_calls (snd (snd (get (\<lambda>v. v) primary_only ()))) = []"
    using synchronizers_called_for_secondary_value
            [where this = primary_only and w = "()" and primary = "resolving ''good''"
               and x = "''good''" and JSON_stringify = "\<lambda>v. v"]
          primary_only_configuration(5,3) g a'
    by simp
  show ?thesis
    using first second a' c0 c1 p
    by (simp add: third_source_accepted_configuration primary_only_configuration rejecting_def)
qed

text \<open>
  C7. While \<open>getInProgress\<close> is set, \<open>get\<close> throws the error whose message begins
  with "`get` was called again before the first call to `get` completed", and calls
  nothing. The flag is set from the moment \<open>get\<close> has passed its guards
  (\<open>get_begin\<close>), and it stays set when the Promise \<open>get\<close> returned never settles.
  When that Promise settles, fulfilled or rejected, the instance is again exactly as it
  was before the call, so the next \<open>get\<close> is permitted and does what it does on a new
  instance with the same configuration: the error catcher and the quitter of the
  earlier call are not part of the instance.
\<close>

theorem get_reentrancy_and_reuse:
  "(getInProgress this \<longrightarrow>
      get JSON_stringify this w =
        (GetThrew (new_Error (''`get` was called again before the first call to `get` completed''
                              @ ''. This will produce unexpected behavior and is not allowed.'')),
         this, []))
   \<and> (get_begin this = Inr this1 \<longrightarrow>
        getInProgress this1 \<and> configuration this1 = configuration this)
   \<and> (get JSON_stringify this w = (GetReturned Pending, this', cs) \<longrightarrow>
        this' = this\<lparr>getInProgress := True\<rparr>)
   \<and> (get JSON_stringify this w = (GetReturned p, this', cs) \<and> p \<noteq> Pending \<longrightarrow>
        this' = this \<and> \<not> getInProgress this'
        \<and> get JSON_stringify this' w'
            = get JSON_stringify \<lparr>configuration = configuration this, getInProgress = False\<rparr> w')"
proof (intro conjI impI)
  assume "getInProgress this"
  then show "get JSON_stringify this w =
        (GetThrew (new_Error (''`get` was called again before the first call to `get` completed''
                              @ ''. This will produce unexpected behavior and is not allowed.'')),
         this, [])"
    by (simp add: get_def get_begin_def)
next
  assume "get_begin this = Inr this1"
  then show "getInProgress this1" and "configuration this1 = configuration this"
    by (auto simp: get_begin_def split: if_splits)
next
  assume "get JSON_stringify this w = (GetReturned Pending, this', cs)"
  then show "this' = this\<lparr>getInProgress := True\<rparr>"
    using get_returned_cases by fastforce
next
  assume a: "get JSON_stringify this w = (GetReturned p, this', cs) \<and> p \<noteq> Pending"
  then have "\<not> getInProgress this" and "this' = this\<lparr>getInProgress := False\<rparr>"
    using get_returned_cases [of JSON_stringify this w p this' cs] by simp_all
  then show same: "this' = this" by (cases this) simp
  then show "\<not> getInProgress this'"
    using \<open>\<not> getInProgress this\<close> by simp
  have "this = \<lparr>configuration = configuration this, getInProgress = False\<rparr>"
    using \<open>\<not> getInProgress this\<close> by (cases this) simp
  then show "get JSON_stringify this' w'
            = get JSON_stringify \<lparr>configuration = configuration this, getInProgress = False\<rparr> w'"
    using same by simp
qed

lemma never_settling_get:
  "get (\<lambda>v. v) never_settling () =
     (GetReturned Pending, never_settling\<lparr>getInProgress := True\<rparr>, [PrimarySourceCalled])"
  by (simp add: never_settling_def with_primarySource_def primarySource_def
                new_ReallyDeterminedPropertyGetter_def get_def get_begin_def Let_def
                promise_then_simps promise_catch_simps assertIsPromise_def)

lemma two_failing_sources_get:
  "\<exists>e cs. get (\<lambda>v. v) two_failing_sources () = (GetReturned (Rejected e), two_failing_sources, cs)"
  by (simp add: two_failing_sources_def secondarySource_def new_ReallyDeterminedPropertyGetter_def
                with_primarySource_def primarySource_def rejecting_def get_def get_begin_def Let_def promise_then_simps promise_catch_simps
                assertIsPromise_def nameError_def getFromSecondaries_def try_secondarySource_def
                maybeQuit_def push_def handleFinalError_def)

theorem get_reentrancy_and_reuse_witness:
  "get_begin never_settling = Inr (never_settling\<lparr>getInProgress := True\<rparr>)
   \<and> get (\<lambda>v. v) never_settling () =
        (GetReturned Pending, never_settling\<lparr>getInProgress := True\<rparr>, [PrimarySourceCalled])
   \<and> getInProgress (never_settling\<lparr>getInProgress := True\<rparr>)
   \<and> get (\<lambda>v. v) (never_settling\<lparr>getInProgress := True\<rparr>) () =
        (GetThrew (new_Error ''`get` was called again before the first call to `get` completed. This will produce unexpected behavior and is not allowed.''),
         never_settling\<lparr>getInProgress := True\<rparr>, [])
   \<and> fst (snd (get (\<lambda>v. v) two_failing_sources ())) = two_failing_sources
   \<and> \<not> getInProgress two_failing_sources
   \<and> get (\<lambda>v. v) (fst (snd (get (\<lambda>v. v) two_failing_sources ()))) ()
       = get (\<lambda>v. v) \<lparr>configuration = configuration two_failing_sources, getInProgress = False\<rparr> ()"
proof -
  have b: "get_begin never_settling = Inr (never_settling\<lparr>getInProgress := True\<rparr>)"
    by (simp add: never_settling_def with_primarySource_def primarySource_def
                  new_ReallyDeterminedPropertyGetter_def get_begin_def)
  have g: "getInProgress (never_settling\<lparr>getInProgress := True\<rparr>)"
    by simp
  have again: "get (\<lambda>v. v) (never_settling\<lparr>getInProgress := True\<rparr>) () =
        (GetThrew (new_Error (''`get` was called again before the first call to `get` completed''
                              @ ''. This will produce unexpected behavior and is not allowed.'')),
         never_settling\<lparr>getInProgress := True\<rparr>, [])"
    using get_reentrancy_and_reuse [where this = "never_settling\<lparr>getInProgress := True\<rparr>"
                                      and JSON_stringify = "\<lambda>v. v" and w = "()"] g
    by blast
  obtain e cs where s: "get (\<lambda>v. v) two_failing_sources () = (GetReturned (Rejected e), two_failing_sources, cs)"
    using two_failing_sources_get by blast
  have reuse: "\<not> getInProgress two_failing_sources
      \<and> get (\<lambda>v. v) two_failing_sources ()
          = get (\<lambda>v. v) \<lparr>configuration = configuration two_failing_sources, getInProgress = False\<rparr> ()"
    using get_reentrancy_and_reuse
            [where this = two_failing_sources and JSON_stringify = "\<lambda>v. v" and w = "()"
               and w' = "()" and p = "Rejected e" and this' = two_failing_sources and cs = cs] s
    by simp
  have again': "get (\<lambda>v. v) (never_settling\<lparr>getInProgress := True\<rparr>) () =
        (GetThrew (new_Error ''`get` was called again before the first call to `get` completed. This will produce unexpected behavior and is not allowed.''),
         never_settling\<lparr>getInProgress := True\<rparr>, [])"
    using again by simp
  have same: "fst (snd (get (\<lambda>v. v) two_failing_sources ())) = two_failing_sources"
    by (simp add: s)
  have fresh: "get (\<lambda>v. v) (fst (snd (get (\<lambda>v. v) two_failing_sources ()))) ()
       = get (\<lambda>v. v) \<lparr>configuration = configuration two_failing_sources, getInProgress = False\<rparr> ()"
    unfolding same using reuse by blast
  show ?thesis
    using b never_settling_get g again' same reuse fresh by blast
qed

end
